theory Spec2Isabelle
  imports Complex_Main
begin

section \<open>The training driver of retinanet/train.py\<close>

text \<open>
  The function \<^verbatim>\<open>train\<close> orchestrates calls into torch, apex, the data iterators,
  \<^verbatim>\<open>infer\<close> and the profiler. The embedding keeps the control flow of the source
  line by line. What the libraries compute is supplied by the environment, one record per
  batch, and every call with an outside effect is logged as an event in a trace.
\<close>

subsection \<open>Values\<close>

text \<open>
  Losses are float32 scalars in the source. A finite float is represented by the rational
  number it denotes; \<open>NonFin\<close> stands for inf and nan, which is what
  \<^verbatim>\<open>math.isfinite\<close> tests. The arithmetic on floats (with its rounding and overflow)
  is not defined here: it is a parameter of the model, the record \<open>arith\<close> below.
\<close>

datatype fl = Fin rat | NonFin

fun isfinite :: "fl \<Rightarrow> bool" where
  "isfinite (Fin a) = True"
| "isfinite NonFin = False"

type_synonym tensor = "fl list"

text \<open>
  The operations of the tensor library that the loop applies to losses: \<open>t_add\<close> is
  \<^verbatim>\<open>cls_loss + box_loss\<close>, \<open>t_scale\<close> the multiplication by the loss scale inside
  \<^verbatim>\<open>amp.scale_loss\<close>, \<open>t_div\<close> is \<^verbatim>\<open>x /= world\<close>, \<open>t_all_reduce\<close> is
  \<^verbatim>\<open>torch.distributed.all_reduce\<close> (the value of this worker combined with the values
  the other workers contribute), and \<open>t_mean\<close> is \<^verbatim>\<open>torch.stack(...).mean().item()\<close>.
\<close>

record arith =
  t_add :: "fl \<Rightarrow> fl \<Rightarrow> fl"
  t_scale :: "rat \<Rightarrow> fl \<Rightarrow> fl"
  t_div :: "fl \<Rightarrow> int \<Rightarrow> fl"
  t_all_reduce :: "fl \<Rightarrow> fl list \<Rightarrow> fl"
  t_mean :: "fl list \<Rightarrow> fl"

text \<open>
  Python exceptions. \<^verbatim>\<open>except Exception\<close> catches the classes deriving from
  \<^verbatim>\<open>Exception\<close>; \<^verbatim>\<open>KeyboardInterrupt\<close> derives from \<^verbatim>\<open>BaseException\<close> only.
  \<open>LibraryError\<close> stands for any \<^verbatim>\<open>Exception\<close> raised inside a library call.
\<close>

datatype exn =
    RuntimeError string
  | KeyError string
  | ZeroDivisionError
  | TypeError string
  | LibraryError string
  | KeyboardInterrupt

fun is_Exception :: "exn \<Rightarrow> bool" where
  "is_Exception KeyboardInterrupt = False"
| "is_Exception (RuntimeError m) = True"
| "is_Exception (KeyError k) = True"
| "is_Exception ZeroDivisionError = True"
| "is_Exception (TypeError m) = True"
| "is_Exception (LibraryError m) = True"

text \<open>What \<^verbatim>\<open>infer\<close> returns: a string, or a number (the test is \<^verbatim>\<open>isinstance(f1_m, str)\<close>).\<close>

datatype metric = MStr string | MNum rat

text \<open>Truthiness of an optional string argument: \<^verbatim>\<open>None\<close> and the empty string are falsy.\<close>

fun truthy :: "string option \<Rightarrow> bool" where
  "truthy None = False"
| "truthy (Some s) = (s \<noteq> [])"

subsection \<open>Arguments, state dict, optimizer and scheduler\<close>

text \<open>
  The arguments of \<^verbatim>\<open>train\<close> that its control flow reads. The remaining ones (paths,
  resize, max_size, jitter, warmup, milestones, gamma) are only handed on to library calls.
  The last field is not an argument: it is the float arithmetic of the tensor library the
  call runs on.
\<close>

record config =
  val_annotations :: "string option"
  batch_size :: int
  iterations :: int
  val_iterations :: int
  mixed_precision :: bool
  lr :: rat
  is_master :: bool
  world :: int
  verbose :: bool
  metrics_url :: "string option"
  logdir :: "string option"
  tensor_ops :: arith

record optimizer_state =
  opt_lr :: rat
  opt_steps :: nat

record scheduler_state =
  best :: "rat option"
  num_bad_epochs :: nat

text \<open>The keys of the dict \<^verbatim>\<open>state\<close> that \<^verbatim>\<open>train\<close> reads or writes; a missing key is \<open>None\<close>.\<close>

record state_dict =
  st_iteration :: "int option"
  st_optimizer :: "optimizer_state option"
  st_scheduler :: "scheduler_state option"

text \<open>The constructor arguments of line 55: mode 'min', factor 0.5, patience 2.\<close>

definition factor :: rat where
  "factor = 1 / 2"

definition patience :: nat where
  "patience = 2"

text \<open>
  Modelled from the spec: \<^verbatim>\<open>torch.optim.lr_scheduler.ReduceLROnPlateau\<close> is library code
  that is not part of the source. In mode 'min' a metric improves when it is below the best
  one seen so far (\<open>None\<close> is the initial best, infinity).
\<close>

definition is_better :: "rat \<Rightarrow> rat option \<Rightarrow> bool" where
  "is_better a bst = (case bst of None \<Rightarrow> True | Some b \<Rightarrow> a < b)"

text \<open>
  Modelled from the spec: \<^verbatim>\<open>scheduler.step(metric)\<close> of the same library class. A step
  that does not improve on the best metric counts as bad; once more than \<open>patience\<close>
  bad steps have accumulated, the learning rate of the optimizer is multiplied by
  \<open>factor\<close> and the count starts again. Arithmetic is exact; the threshold, the
  cooldown and the smallest change of the library are left out.
\<close>

definition scheduler_step :: "rat \<Rightarrow> scheduler_state \<times> optimizer_state \<Rightarrow> scheduler_state \<times> optimizer_state" where
  "scheduler_step m so =
     (let sch = fst so; opt = snd so;
          sch1 = (if is_better m (best sch)
                  then sch\<lparr>best := Some m, num_bad_epochs := 0\<rparr>
                  else sch\<lparr>num_bad_epochs := num_bad_epochs sch + 1\<rparr>)
      in if num_bad_epochs sch1 > patience
         then (sch1\<lparr>num_bad_epochs := 0\<rparr>, opt\<lparr>opt_lr := opt_lr opt * factor\<rparr>)
         else (sch1, opt))"

subsection \<open>Environment and trace\<close>

text \<open>
  What the outside world does at one iteration: the result of the forward pass
  \<^verbatim>\<open>model([data, target])\<close>, the batch-mean losses of the other workers, the wall time
  (in seconds) that \<^verbatim>\<open>profiler.bump('train')\<close> adds, and what \<^verbatim>\<open>infer\<close> returns if it
  is called after this batch. The forward pass and \<^verbatim>\<open>infer\<close> may raise, the backward
  pass raises on a loss that is not a scalar, and \<^verbatim>\<open>statistics.mean\<close> raises on
  tensors; the optimizer, the writer and the save are taken to return.
\<close>

record batch =
  fw_result :: "exn + (tensor \<times> tensor)"
  peers_cls :: "fl list"
  peers_box :: "fl list"
  elapsed :: rat
  val_result :: "exn + metric"

datatype event =
    AmpInitialize string rat
  | WrapDistributed
  | ModelTrain
  | LoadOptimizer
  | PrintSetup
  | WriterCreate string
  | ZeroGrad
  | Forward
  | Backward fl
  | OptimizerStep
  | ConsoleProgress int fl fl rat
  | AddScalar string fl int
  | PostMetrics string fl fl rat
  | Infer
  | PrintMetric rat
  | SchedulerStep rat
  | PrintSaving int
  | Save state_dict
  | PrintExn exn
  | WriterClose

text \<open>
  The variables the loop mutates, and the trace of events so far. \<open>prof_train\<close> is
  \<^verbatim>\<open>profiler.totals['train']\<close>. Modelled from the spec: the class \<^verbatim>\<open>Profiler\<close> of
  \<^verbatim>\<open>utils.py\<close> is not part of the source; its total is the time accumulated by
  \<^verbatim>\<open>bump\<close> since the last \<^verbatim>\<open>reset\<close>, and its mean time per batch is positive, so that
  the division of line 129 does not fail.
\<close>

record loop_state =
  iteration :: int
  state :: state_dict
  optimizer :: optimizer_state
  scheduler :: scheduler_state
  prof_train :: rat
  cls_losses :: "fl list"
  box_losses :: "fl list"
  trace :: "event list"

definition emit :: "event list \<Rightarrow> loop_state \<Rightarrow> loop_state" where
  "emit evs s = s\<lparr>trace := trace s @ evs\<rparr>"

text \<open>How one pass through the loop body ends.\<close>

datatype ctl = Next | Break | Raise exn

subsection \<open>Preparation (lines 22 to 78)\<close>

text \<open>Line 35: the optimization level handed to \<^verbatim>\<open>amp.initialize\<close>.\<close>

definition opt_level :: "bool \<Rightarrow> string" where
  "opt_level mp = (if mp then ''O0'' else ''O0'')"

definition loss_scale :: rat where
  "loss_scale = 128"

text \<open>\<^verbatim>\<open>state.get('iteration', 0)\<close> of line 78.\<close>

definition initial_iteration :: "state_dict \<Rightarrow> int" where
  "initial_iteration st = (case st_iteration st of None \<Rightarrow> 0 | Some i \<Rightarrow> i)"

definition prepare :: "config \<Rightarrow> state_dict \<Rightarrow> loop_state" where
  "prepare cfg st =
     (let optimizer0 = \<lparr>opt_lr = lr cfg, opt_steps = 0\<rparr>;
          ev_amp = [AmpInitialize (opt_level (mixed_precision cfg)) loss_scale];
          ev_ddp = (if world cfg > 1 then [WrapDistributed] else []);
          optimizer1 = (case st_optimizer st of None \<Rightarrow> optimizer0 | Some o' \<Rightarrow> o');
          ev_load = (case st_optimizer st of None \<Rightarrow> [] | Some o' \<Rightarrow> [LoadOptimizer]);
          scheduler0 = \<lparr>best = None, num_bad_epochs = 0\<rparr>;
          ev_print = (if verbose cfg then [PrintSetup] else []);
          ev_writer = (case logdir cfg of None \<Rightarrow> [] | Some d \<Rightarrow> [WriterCreate d])
      in \<lparr>iteration = initial_iteration st,
          state = st,
          optimizer = optimizer1,
          scheduler = scheduler0,
          prof_train = 0,
          cls_losses = [],
          box_losses = [],
          trace = ev_amp @ ev_ddp @ [ModelTrain] @ ev_load @ ev_print @ ev_writer\<rparr>)"

subsection \<open>The loop body (lines 83 to 174)\<close>

text \<open>
  Lines 100 to 105: the batch mean of this worker, combined over the workers by the
  all-reduce and divided by \<open>world\<close>. The loss is a scalar here (see below), and the mean
  of a scalar is the scalar.
\<close>

definition reduce_loss :: "config \<Rightarrow> fl \<Rightarrow> fl list \<Rightarrow> fl" where
  "reduce_loss cfg x peers =
     (if world cfg > 1
      then t_div (tensor_ops cfg) (t_all_reduce (tensor_ops cfg) x peers) (world cfg)
      else x)"

definition diverging :: string where
  "diverging = ''Loss is diverging!'' @ [CHR 0x0A] @ ''Try lowering the learning rate.''"

text \<open>
  \<^verbatim>\<open>scaled_loss.backward()\<close> needs a scalar. When a loss tensor has not exactly one
  element, lines 95 and 96 raise RuntimeError (from the addition when the shapes do not
  match, from the backward pass otherwise) and the optimizer step is not reached. The
  model has one message for both.
\<close>

fun scalar :: "tensor \<Rightarrow> fl option" where
  "scalar [x] = Some x"
| "scalar xs = None"

definition not_scalar :: string where
  "not_scalar = ''grad can be implicitly created only for scalar outputs''"

text \<open>Lines 86 to 115: forward pass, backward pass, reduction and the divergence test.\<close>

definition forward_backward :: "config \<Rightarrow> batch \<Rightarrow> loop_state \<Rightarrow> ctl \<times> loop_state" where
  "forward_backward cfg b s =
     (let s1 = emit [ZeroGrad, Forward] s
      in case fw_result b of
           Inl e \<Rightarrow> (Raise e, s1)
         | Inr (cls_t, box_t) \<Rightarrow>
             (case scalar cls_t of
                None \<Rightarrow> (Raise (RuntimeError not_scalar), s1)
              | Some c \<Rightarrow>
                  (case scalar box_t of
                     None \<Rightarrow> (Raise (RuntimeError not_scalar), s1)
                   | Some bx \<Rightarrow>
                       let s2 = emit [Backward (t_scale (tensor_ops cfg) loss_scale
                                                 (t_add (tensor_ops cfg) c bx)),
                                      OptimizerStep]
                                  (s1\<lparr>optimizer := (optimizer s1)\<lparr>opt_steps := opt_steps (optimizer s1) + 1\<rparr>\<rparr>);
                           cls_loss = reduce_loss cfg c (peers_cls b);
                           box_loss = reduce_loss cfg bx (peers_box b);
                           s3 = (if is_master cfg
                                 then s2\<lparr>cls_losses := cls_losses s2 @ [cls_loss],
                                         box_losses := box_losses s2 @ [box_loss]\<rparr>
                                 else s2)
                       in if is_master cfg \<and> \<not> isfinite (t_add (tensor_ops cfg) cls_loss box_loss)
                          then (Raise (RuntimeError diverging), s3)
                          else (Next, s3))))"

text \<open>Lines 148 to 157: the update of the state dict and the reset of profiler and lists.\<close>

definition record_state :: "loop_state \<Rightarrow> loop_state" where
  "record_state s =
     s\<lparr>state := (state s)\<lparr>st_iteration := Some (iteration s),
                             st_optimizer := Some (optimizer s),
                             st_scheduler := Some (scheduler s)\<rparr>,
       prof_train := 0, cls_losses := [], box_losses := []\<rparr>"

text \<open>
  Line 141 applies \<^verbatim>\<open>statistics.mean\<close> to the list of loss tensors, which raises
  TypeError (a tensor has no numerator and denominator): with \<^verbatim>\<open>metrics_url\<close> set, the
  report ends there, before \<^verbatim>\<open>post_metrics\<close> and before the state dict is updated.
\<close>

definition mean_of_tensors :: string where
  "mean_of_tensors = ''cannot convert type Tensor to numerator/denominator''"

text \<open>Lines 119 to 157: the progress report and the update of the state dict.\<close>

definition report :: "config \<Rightarrow> loop_state \<Rightarrow> ctl \<times> loop_state" where
  "report cfg s =
     (if is_master cfg \<and> (prof_train s > 2 \<or> iteration s = iterations cfg) then
        let focal_loss = t_mean (tensor_ops cfg) (cls_losses s);
            box_loss = t_mean (tensor_ops cfg) (box_losses s);
            learning_rate = opt_lr (optimizer s);
            s1 = (if verbose cfg
                  then emit [ConsoleProgress (iteration s) focal_loss box_loss learning_rate] s
                  else s);
            s2 = (case logdir cfg of
                    None \<Rightarrow> s1
                  | Some d \<Rightarrow> emit [AddScalar ''focal_loss'' focal_loss (iteration s),
                                   AddScalar ''box_loss'' box_loss (iteration s),
                                   AddScalar ''learning_rate'' (Fin learning_rate) (iteration s)] s1)
        in (case metrics_url cfg of
              None \<Rightarrow> (Next, record_state s2)
            | Some u \<Rightarrow> if u \<noteq> []
                       then (Raise (TypeError mean_of_tensors), s2)
                       else (Next, record_state s2))
      else (Next, s))"

text \<open>
  Lines 160 to 171: validation, the scheduler step and the checkpoint.
  \<^verbatim>\<open>state['iteration']\<close> raises \<^verbatim>\<open>KeyError\<close> when the key is missing.
\<close>

definition run_validation :: "config \<Rightarrow> batch \<Rightarrow> loop_state \<Rightarrow> ctl \<times> loop_state" where
  "run_validation cfg b s =
     (let s1 = emit [Infer] s
      in case val_result b of
           Inl e \<Rightarrow> (Raise e, s1)
         | Inr f1_m \<Rightarrow>
             let s2 = (case f1_m of
                         MStr t \<Rightarrow> s1
                       | MNum m \<Rightarrow>
                           let so = scheduler_step m (scheduler s1, optimizer s1)
                           in emit [PrintMetric m, SchedulerStep m]
                                (s1\<lparr>scheduler := fst so, optimizer := snd so\<rparr>));
                 s3 = emit [ModelTrain] s2
             in if is_master cfg then
                  (case st_iteration (state s3) of
                     None \<Rightarrow> (Raise (KeyError ''iteration''), s3)
                   | Some k \<Rightarrow> (Next, emit [PrintSaving k, Save (state s3)] s3))
                else (Next, s3))"

text \<open>
  Line 159: the guard of the validation block. \<^verbatim>\<open>or\<close> is short-circuit, and
  \<^verbatim>\<open>%\<close> raises \<^verbatim>\<open>ZeroDivisionError\<close> on a zero divisor.
\<close>

definition validate :: "config \<Rightarrow> batch \<Rightarrow> loop_state \<Rightarrow> ctl \<times> loop_state" where
  "validate cfg b s =
     (if truthy (val_annotations cfg) then
        (if iteration s = iterations cfg then run_validation cfg b s
         else if val_iterations cfg = 0 then (Raise ZeroDivisionError, s)
         else if iteration s mod val_iterations cfg = 0 then run_validation cfg b s
         else (Next, s))
      else (Next, s))"

text \<open>Lines 117 and 118: the count goes up by one and the profiler adds the time of the batch.\<close>

definition advance :: "batch \<Rightarrow> loop_state \<Rightarrow> loop_state" where
  "advance b s = s\<lparr>iteration := iteration s + 1, prof_train := prof_train s + elapsed b\<rparr>"

text \<open>One pass through the body of the \<^verbatim>\<open>for\<close> loop; line 173 is the \<^verbatim>\<open>break\<close>.\<close>

definition body :: "config \<Rightarrow> batch \<Rightarrow> loop_state \<Rightarrow> ctl \<times> loop_state" where
  "body cfg b s =
     (case forward_backward cfg b s of
        (Next, s1) \<Rightarrow>
          (case report cfg (advance b s1) of
             (Next, s3) \<Rightarrow>
               (case validate cfg b s3 of
                  (Next, s4) \<Rightarrow> if iteration s4 = iterations cfg then (Break, s4) else (Next, s4)
                | (Break, s4) \<Rightarrow> (Break, s4)
                | (Raise e, s4) \<Rightarrow> (Raise e, s4))
           | (Break, s3) \<Rightarrow> (Break, s3)
           | (Raise e, s3) \<Rightarrow> (Raise e, s3))
      | (Break, s1) \<Rightarrow> (Break, s1)
      | (Raise e, s1) \<Rightarrow> (Raise e, s1))"

subsection \<open>The loops (lines 80 to 82) and train\<close>

text \<open>Line 82: the \<^verbatim>\<open>for\<close> loop over the batches of one pass through the data iterator.\<close>

fun for_batches :: "config \<Rightarrow> batch list \<Rightarrow> loop_state \<Rightarrow> ctl \<times> loop_state" where
  "for_batches cfg [] s = (Next, s)"
| "for_batches cfg (b # bs) s =
     (case body cfg b s of
        (Next, s') \<Rightarrow> for_batches cfg bs s'
      | (Break, s') \<Rightarrow> (Break, s')
      | (Raise e, s') \<Rightarrow> (Raise e, s'))"

text \<open>
  Line 80: the \<^verbatim>\<open>while\<close> loop. \<open>data_iterator k\<close> is the list of batches that the
  \<open>k\<close>-th enumeration of the data iterator yields. The loop need not end (an iterator
  without batches never advances the count), so it runs on fuel, one unit per pass, and
  \<open>None\<close> means that the fuel did not suffice. \<^verbatim>\<open>break\<close> leaves the \<^verbatim>\<open>for\<close> loop only;
  the guard of the \<^verbatim>\<open>while\<close> loop is then tested again.
\<close>

fun while_loop :: "nat \<Rightarrow> config \<Rightarrow> (nat \<Rightarrow> batch list) \<Rightarrow> nat \<Rightarrow> loop_state \<Rightarrow> (ctl \<times> loop_state) option" where
  "while_loop 0 cfg data_iterator k s =
     (if iteration s < iterations cfg then None else Some (Next, s))"
| "while_loop (Suc fuel) cfg data_iterator k s =
     (if iteration s < iterations cfg then
        (case for_batches cfg (data_iterator k) (s\<lparr>cls_losses := [], box_losses := []\<rparr>) of
           (Raise e, s') \<Rightarrow> Some (Raise e, s')
         | (Break, s') \<Rightarrow> while_loop fuel cfg data_iterator (Suc k) s'
         | (Next, s') \<Rightarrow> while_loop fuel cfg data_iterator (Suc k) s')
      else Some (Next, s))"

text \<open>
  How a call of \<^verbatim>\<open>train\<close> ends: the loop ran to its end, an exception was caught and
  printed by the handler of line 175, or an exception left \<^verbatim>\<open>train\<close>.
\<close>

datatype outcome = Completed | Caught exn | Propagated exn

text \<open>Lines 178 and 179.\<close>

definition close_writer :: "config \<Rightarrow> loop_state \<Rightarrow> loop_state" where
  "close_writer cfg s = (case logdir cfg of None \<Rightarrow> s | Some d \<Rightarrow> emit [WriterClose] s)"

definition train :: "config \<Rightarrow> state_dict \<Rightarrow> (nat \<Rightarrow> batch list) \<Rightarrow> nat \<Rightarrow> (outcome \<times> loop_state) option" where
  "train cfg st data_iterator fuel =
     (case while_loop fuel cfg data_iterator 0 (prepare cfg st) of
        None \<Rightarrow> None
      | Some (Raise e, s) \<Rightarrow>
          if is_Exception e then Some (Caught e, close_writer cfg (emit [PrintExn e] s))
          else Some (Propagated e, s)
      | Some (Break, s) \<Rightarrow> Some (Completed, close_writer cfg s)
      | Some (Next, s) \<Rightarrow> Some (Completed, close_writer cfg s))"

subsection \<open>Kinds of events\<close>

text \<open>The events of the forward and backward pass (lines 86 to 97).\<close>

fun is_pass :: "event \<Rightarrow> bool" where
  "is_pass ZeroGrad = True"
| "is_pass Forward = True"
| "is_pass (Backward x) = True"
| "is_pass OptimizerStep = True"
| "is_pass e = False"

text \<open>
  The three sinks of the progress report (lines 123 to 145). No run emits \<open>PostMetrics\<close>:
  line 141 raises before \<^verbatim>\<open>post_metrics\<close> is called.
\<close>

fun is_console :: "event \<Rightarrow> bool" where
  "is_console (ConsoleProgress i f b l) = True"
| "is_console e = False"

fun is_tensorboard :: "event \<Rightarrow> bool" where
  "is_tensorboard (AddScalar n v i) = True"
| "is_tensorboard e = False"

fun is_metrics :: "event \<Rightarrow> bool" where
  "is_metrics (PostMetrics u f b l) = True"
| "is_metrics e = False"

definition is_progress :: "event \<Rightarrow> bool" where
  "is_progress e = (is_console e \<or> is_tensorboard e \<or> is_metrics e)"

text \<open>The events of the validation block (lines 160 to 171).\<close>

fun is_save :: "event \<Rightarrow> bool" where
  "is_save (Save st) = True"
| "is_save e = False"

fun is_validation :: "event \<Rightarrow> bool" where
  "is_validation Infer = True"
| "is_validation (PrintMetric m) = True"
| "is_validation (SchedulerStep m) = True"
| "is_validation ModelTrain = True"
| "is_validation (PrintSaving k) = True"
| "is_validation (Save st) = True"
| "is_validation e = False"

text \<open>The events of the forward and backward pass over a batch.\<close>

definition pass_events :: "config \<Rightarrow> batch \<Rightarrow> event list" where
  "pass_events cfg b =
     [ZeroGrad, Forward] @
     (case fw_result b of
        Inl e \<Rightarrow> []
      | Inr (cls_t, box_t) \<Rightarrow>
          (case scalar cls_t of
             None \<Rightarrow> []
           | Some c \<Rightarrow>
               (case scalar box_t of
                  None \<Rightarrow> []
                | Some bx \<Rightarrow> [Backward (t_scale (tensor_ops cfg) loss_scale
                                           (t_add (tensor_ops cfg) c bx)),
                              OptimizerStep])))"

text \<open>The number of optimizer steps in a trace: the batches whose backward pass completed.\<close>

definition steps :: "event list \<Rightarrow> nat" where
  "steps tr = length (filter (\<lambda>e. e = OptimizerStep) tr)"

subsection \<open>Example inputs\<close>

text \<open>
  The arithmetic of the examples is exact. Their losses are small integers and their
  learning rates powers of two, on which float arithmetic neither rounds nor overflows.
\<close>

fun exact_add :: "fl \<Rightarrow> fl \<Rightarrow> fl" where
  "exact_add (Fin a) (Fin b) = Fin (a + b)"
| "exact_add (Fin a) NonFin = NonFin"
| "exact_add NonFin y = NonFin"

fun exact_scale :: "rat \<Rightarrow> fl \<Rightarrow> fl" where
  "exact_scale k (Fin a) = Fin (k * a)"
| "exact_scale k NonFin = NonFin"

fun exact_div :: "fl \<Rightarrow> int \<Rightarrow> fl" where
  "exact_div (Fin a) w = (if w = 0 then NonFin else Fin (a / of_int w))"
| "exact_div NonFin w = NonFin"

fun exact_sum :: "fl list \<Rightarrow> fl" where
  "exact_sum [] = Fin 0"
| "exact_sum (x # xs) = exact_add x (exact_sum xs)"

definition exact_mean :: "fl list \<Rightarrow> fl" where
  "exact_mean xs = (if xs = [] then NonFin else exact_div (exact_sum xs) (int (length xs)))"

definition exact_all_reduce :: "fl \<Rightarrow> fl list \<Rightarrow> fl" where
  "exact_all_reduce x peers = exact_sum (x # peers)"

definition exact_arith :: arith where
  "exact_arith = \<lparr>t_add = exact_add, t_scale = exact_scale, t_div = exact_div,
     t_all_reduce = exact_all_reduce, t_mean = exact_mean\<rparr>"

text \<open>A master worker that validates after every iteration, prints progress and writes
  TensorBoard logs; two iterations are requested.\<close>

definition example_cfg :: config where
  "example_cfg = \<lparr>val_annotations = Some ''val.json'', batch_size = 2, iterations = 2,
     val_iterations = 1, mixed_precision = True, lr = 1 / 64, is_master = True, world = 1,
     verbose = True, metrics_url = None, logdir = Some ''runs'', tensor_ops = exact_arith\<rparr>"

text \<open>The same run without a validation set.\<close>

definition plain_cfg :: config where
  "plain_cfg = example_cfg\<lparr>val_annotations := None\<rparr>"

text \<open>The same run with a metrics service.\<close>

definition metrics_cfg :: config where
  "metrics_cfg = plain_cfg\<lparr>metrics_url := Some ''http://metrics''\<rparr>"

text \<open>The master of two workers.\<close>

definition distributed_cfg :: config where
  "distributed_cfg = example_cfg\<lparr>world := 2\<rparr>"

text \<open>The state dict of a new model has no entry, that of a checkpoint has all three.\<close>

definition fresh_state :: state_dict where
  "fresh_state = \<lparr>st_iteration = None, st_optimizer = None, st_scheduler = None\<rparr>"

definition resumed_state :: state_dict where
  "resumed_state = \<lparr>st_iteration = Some 5,
     st_optimizer = Some \<lparr>opt_lr = 1 / 128, opt_steps = 5\<rparr>,
     st_scheduler = Some \<lparr>best = Some (1 / 2), num_bad_epochs = 1\<rparr>\<rparr>"

text \<open>Batches: a quick one, one that takes three seconds, one whose classification loss
  is not finite, one during which the user presses Ctrl-C, and one with a second worker.\<close>

definition quick_batch :: batch where
  "quick_batch = \<lparr>fw_result = Inr ([Fin 1], [Fin 2]), peers_cls = [], peers_box = [],
     elapsed = 1 / 2, val_result = Inr (MNum (3 / 4))\<rparr>"

definition distributed_batch :: batch where
  "distributed_batch = quick_batch\<lparr>peers_cls := [Fin 3], peers_box := [Fin 6]\<rparr>"

definition slow_batch :: batch where
  "slow_batch = quick_batch\<lparr>elapsed := 3\<rparr>"

definition diverging_batch :: batch where
  "diverging_batch = quick_batch\<lparr>fw_result := Inr ([NonFin], [Fin 2])\<rparr>"

definition interrupted_batch :: batch where
  "interrupted_batch = quick_batch\<lparr>fw_result := Inl KeyboardInterrupt\<rparr>"

definition quick_iterator :: "nat \<Rightarrow> batch list" where
  "quick_iterator k = [quick_batch]"

definition slow_iterator :: "nat \<Rightarrow> batch list" where
  "slow_iterator k = [slow_batch]"

definition diverging_iterator :: "nat \<Rightarrow> batch list" where
  "diverging_iterator k = [diverging_batch]"

definition interrupted_iterator :: "nat \<Rightarrow> batch list" where
  "interrupted_iterator k = [interrupted_batch]"

text \<open>The state in which the loop starts for a new model.\<close>

definition start_state :: loop_state where
  "start_state = prepare example_cfg fresh_state"

text \<open>One pass over the slow batch from the start, the events it adds, and a whole run.\<close>

definition after_slow :: loop_state where
  "after_slow = snd (body example_cfg slow_batch start_state)"

definition slow_events :: "event list" where
  "slow_events = drop (length (trace start_state)) (trace after_slow)"

definition slow_run :: loop_state where
  "slow_run = snd (the (train example_cfg fresh_state slow_iterator 2))"

text \<open>A whole run without a validation set, and a run that ends in the handler.\<close>

definition plain_run :: loop_state where
  "plain_run = snd (the (train plain_cfg fresh_state slow_iterator 2))"

definition metrics_run :: loop_state where
  "metrics_run = snd (the (train metrics_cfg fresh_state slow_iterator 2))"

definition diverged_run :: loop_state where
  "diverged_run = snd (the (train example_cfg fresh_state diverging_iterator 2))"

text \<open>A run to the end over quick batches, and the state in which the loss diverges.\<close>

definition quick_run :: loop_state where
  "quick_run = snd (the (train plain_cfg fresh_state quick_iterator 2))"


text \<open>A run that resumes from a checkpoint whose count is beyond the requested iterations.\<close>

definition resumed_run :: loop_state where
  "resumed_run = snd (the (train plain_cfg resumed_state quick_iterator 2))"

text \<open>The run of a new model on the master that validates after the first quick batch.\<close>

definition keyerror_run :: loop_state where
  "keyerror_run = snd (the (train example_cfg fresh_state quick_iterator 2))"

text \<open>A scheduler that has seen the metric 1/2, and an optimizer.\<close>

definition seen_half :: scheduler_state where
  "seen_half = \<lparr>best = Some (1 / 2), num_bad_epochs = 0\<rparr>"

definition some_optimizer :: optimizer_state where
  "some_optimizer = \<lparr>opt_lr = 1 / 64, opt_steps = 7\<rparr>"

section \<open>Properties\<close>

lemma emit_fields [simp]:
  "trace (emit evs s) = trace s @ evs"
  "iteration (emit evs s) = iteration s"
  "state (emit evs s) = state s"
  "optimizer (emit evs s) = optimizer s"
  "scheduler (emit evs s) = scheduler s"
  "prof_train (emit evs s) = prof_train s"
  "cls_losses (emit evs s) = cls_losses s"
  "box_losses (emit evs s) = box_losses s"
  by (simp_all add: emit_def)

lemma steps_append [simp]: "steps (xs @ ys) = steps xs + steps ys"
  by (simp add: steps_def)

lemma steps_not_pass: "list_all (\<lambda>e. \<not> is_pass e) evs \<Longrightarrow> steps evs = 0"
  by (induction evs) (auto simp: steps_def)

lemma progress_not_pass: "is_progress e \<Longrightarrow> \<not> is_pass e"
  by (cases e) (auto simp: is_progress_def)

lemma validation_not_pass: "is_validation e \<Longrightarrow> \<not> is_pass e"
  by (cases e) auto

lemma validation_not_progress: "is_validation e \<Longrightarrow> \<not> is_progress e"
  by (cases e) (auto simp: is_progress_def)

lemma pass_not_progress: "is_pass e \<Longrightarrow> \<not> is_progress e"
  by (cases e) (auto simp: is_progress_def)

lemma pass_not_save: "is_pass e \<Longrightarrow> \<not> is_save e"
  by (cases e) auto

lemma progress_not_save: "is_progress e \<Longrightarrow> \<not> is_save e"
  by (cases e) (auto simp: is_progress_def)

subsection \<open>The phases of the loop body\<close>

lemma forward_backward_frame:
  assumes "forward_backward cfg b s = (c, s')"
  shows "iteration s' = iteration s \<and> state s' = state s \<and> scheduler s' = scheduler s
         \<and> prof_train s' = prof_train s \<and> c \<noteq> Break"
  using assms
  by (auto simp: forward_backward_def Let_def split: sum.splits prod.splits option.splits if_splits)

lemma forward_backward_trace:
  assumes "forward_backward cfg b s = (c, s')"
  shows "trace s' = trace s @ pass_events cfg b"
  using assms
  by (auto simp: forward_backward_def pass_events_def Let_def
      split: sum.splits prod.splits option.splits if_splits)

lemma scalar_Some: "scalar t = Some x \<longleftrightarrow> t = [x]"
  by (cases t rule: scalar.cases) auto

lemma forward_backward_Next:
  assumes "forward_backward cfg b s = (Next, s')"
  shows "\<exists>x y. fw_result b = Inr ([x], [y])"
  using assms
  by (auto simp: forward_backward_def Let_def scalar_Some
      split: sum.splits prod.splits option.splits if_splits)

lemma pass_events_scalar:
  assumes "fw_result b = Inr ([x], [y])"
  shows "pass_events cfg b = [ZeroGrad, Forward,
           Backward (t_scale (tensor_ops cfg) loss_scale (t_add (tensor_ops cfg) x y)), OptimizerStep]"
  using assms by (simp add: pass_events_def)

lemma pass_events_kinds: "list_all is_pass (pass_events cfg b)"
  by (auto simp: pass_events_def split: sum.splits option.splits)

lemma record_state_fields [simp]:
  "iteration (record_state s) = iteration s"
  "optimizer (record_state s) = optimizer s"
  "scheduler (record_state s) = scheduler s"
  "trace (record_state s) = trace s"
  "state (record_state s) = (state s)\<lparr>st_iteration := Some (iteration s),
     st_optimizer := Some (optimizer s), st_scheduler := Some (scheduler s)\<rparr>"
  by (simp_all add: record_state_def)

lemma report_frame:
  assumes "report cfg s = (c, s')"
  shows "iteration s' = iteration s \<and> optimizer s' = optimizer s \<and> scheduler s' = scheduler s
         \<and> c \<noteq> Break"
  using assms
  by (auto simp: report_def Let_def split: option.splits if_splits)

lemma report_trace:
  assumes "report cfg s = (c, s')"
  shows "\<exists>evs. trace s' = trace s @ evs \<and> list_all is_progress evs
     \<and> (evs \<noteq> [] \<longrightarrow> is_master cfg \<and> (2 < prof_train s \<or> iteration s = iterations cfg))
     \<and> (\<forall>e\<in>set evs. (is_console e \<longrightarrow> verbose cfg) \<and> (is_tensorboard e \<longrightarrow> logdir cfg \<noteq> None)
            \<and> (is_metrics e \<longrightarrow> truthy (metrics_url cfg)))"
  using assms
  by (auto simp: report_def Let_def is_progress_def split: option.splits if_splits)

lemma report_state:
  assumes "report cfg s = (Next, s')"
  shows "state s' =
     (if is_master cfg \<and> (2 < prof_train s \<or> iteration s = iterations cfg)
      then (state s)\<lparr>st_iteration := Some (iteration s), st_optimizer := Some (optimizer s),
                     st_scheduler := Some (scheduler s)\<rparr>
      else state s)"
  using assms
  by (auto simp: report_def Let_def split: option.splits if_splits)

lemma report_returns:
  assumes "\<not> truthy (metrics_url cfg)"
  shows "fst (report cfg s) = Next"
  using assms
  by (cases "metrics_url cfg") (auto simp: report_def Let_def)

lemma run_validation_frame:
  assumes "run_validation cfg b s = (c, s')"
  shows "iteration s' = iteration s \<and> state s' = state s \<and> c \<noteq> Break"
  using assms
  by (auto simp: run_validation_def Let_def split: sum.splits metric.splits option.splits if_splits)

lemma run_validation_trace:
  assumes "run_validation cfg b s = (c, s')"
  shows "\<exists>evs. trace s' = trace s @ Infer # evs \<and> list_all is_validation evs"
  using assms
  by (auto simp: run_validation_def Let_def split: sum.splits metric.splits option.splits if_splits)

lemma validate_frame:
  assumes "validate cfg b s = (c, s')"
  shows "iteration s' = iteration s \<and> state s' = state s \<and> c \<noteq> Break"
  using assms run_validation_frame [of cfg b s c s']
  by (auto simp: validate_def split: if_splits)

lemma validate_trace:
  assumes "validate cfg b s = (c, s')"
  shows "\<exists>evs. trace s' = trace s @ evs \<and> list_all is_validation evs
           \<and> (\<not> truthy (val_annotations cfg) \<longrightarrow> evs = [])"
  using assms run_validation_trace [of cfg b s c s']
  by (auto simp: validate_def split: if_splits)

lemma advance_fields [simp]:
  "iteration (advance b s) = iteration s + 1"
  "prof_train (advance b s) = prof_train s + elapsed b"
  "trace (advance b s) = trace s"
  "state (advance b s) = state s"
  "optimizer (advance b s) = optimizer s"
  "scheduler (advance b s) = scheduler s"
  "cls_losses (advance b s) = cls_losses s"
  "box_losses (advance b s) = box_losses s"
  by (simp_all add: advance_def)

lemma body_cases:
  assumes "body cfg b s = (c, s')"
  obtains (pass_raises) e where "forward_backward cfg b s = (Raise e, s')" and "c = Raise e"
  | (report_raises) s1 e where "forward_backward cfg b s = (Next, s1)"
      and "report cfg (advance b s1) = (Raise e, s')" and "c = Raise e"
  | (validation_raises) s1 s3 e where "forward_backward cfg b s = (Next, s1)"
      and "report cfg (advance b s1) = (Next, s3)"
      and "validate cfg b s3 = (Raise e, s')" and "c = Raise e"
  | (finished) s1 s3 where "forward_backward cfg b s = (Next, s1)"
      and "report cfg (advance b s1) = (Next, s3)"
      and "validate cfg b s3 = (Next, s')"
      and "c = (if iteration s' = iterations cfg then Break else Next)"
proof (cases "forward_backward cfg b s")
  case (Pair c1 s1)
  show ?thesis
  proof (cases c1)
    case Next
    obtain c3 s3 where r: "report cfg (advance b s1) = (c3, s3)"
      by (cases "report cfg (advance b s1)")
    show ?thesis
    proof (cases c3)
      case Next
      obtain c4 s4 where v: "validate cfg b s3 = (c4, s4)"
        by (cases "validate cfg b s3")
      have nb: "c4 \<noteq> Break" using validate_frame [OF v] by simp
      show ?thesis
      proof (cases c4)
        case Next
        with v r Pair \<open>c1 = Next\<close> \<open>c3 = Next\<close> assms show ?thesis
          by (intro finished [of s1 s3]) (auto simp: body_def split: if_splits)
      next
        case Break
        with nb show ?thesis by simp
      next
        case (Raise e)
        with v r Pair \<open>c1 = Next\<close> \<open>c3 = Next\<close> assms show ?thesis
          by (intro validation_raises [of s1 s3 e]) (auto simp: body_def)
      qed
    next
      case Break
      with r report_frame [OF r] show ?thesis by simp
    next
      case (Raise e)
      with r Pair \<open>c1 = Next\<close> assms show ?thesis
        by (intro report_raises [of s1 e]) (auto simp: body_def)
    qed
  next
    case Break
    with Pair forward_backward_frame [of cfg b s c1 s1] show ?thesis by simp
  next
    case (Raise e)
    with Pair assms show ?thesis
      by (intro pass_raises [of e]) (auto simp: body_def)
  qed
qed

lemma body_events:
  assumes "body cfg b s = (c, s')"
  shows "\<exists>rep val. trace s' = trace s @ pass_events cfg b @ rep @ val
           \<and> list_all is_progress rep \<and> list_all is_validation val
           \<and> (rep \<noteq> [] \<longrightarrow> is_master cfg \<and> (2 < prof_train s + elapsed b \<or> iteration s + 1 = iterations cfg))
           \<and> (\<forall>e\<in>set rep. (is_console e \<longrightarrow> verbose cfg) \<and> (is_tensorboard e \<longrightarrow> logdir cfg \<noteq> None)
                  \<and> (is_metrics e \<longrightarrow> truthy (metrics_url cfg)))
           \<and> (\<not> truthy (val_annotations cfg) \<longrightarrow> val = [])"
proof -
  have after_report: ?thesis
    if fb: "forward_backward cfg b s = (Next, s1)"
      and r: "report cfg (advance b s1) = (c3, s3)"
      and v: "trace s' = trace s3 @ val" "list_all is_validation val"
        "\<not> truthy (val_annotations cfg) \<longrightarrow> val = []" for s1 c3 s3 val
  proof -
    have t1: "trace s1 = trace s @ pass_events cfg b" using forward_backward_trace [OF fb] .
    have f1: "iteration s1 = iteration s" "prof_train s1 = prof_train s"
      using forward_backward_frame [OF fb] by simp_all
    obtain rep where rep: "trace s3 = trace (advance b s1) @ rep"
      "list_all is_progress rep"
      "rep \<noteq> [] \<longrightarrow> is_master cfg \<and> (2 < prof_train (advance b s1) \<or> iteration (advance b s1) = iterations cfg)"
      "\<forall>e\<in>set rep. (is_console e \<longrightarrow> verbose cfg) \<and> (is_tensorboard e \<longrightarrow> logdir cfg \<noteq> None)
                  \<and> (is_metrics e \<longrightarrow> truthy (metrics_url cfg))"
      using report_trace [OF r] by blast
    have "trace s' = trace s @ pass_events cfg b @ rep @ val"
      using t1 rep(1) v(1) by simp
    with rep(2,3,4) v(2,3) f1 show ?thesis
      by (intro exI [of _ rep] exI [of _ val]) simp
  qed
  from assms show ?thesis
  proof (cases rule: body_cases)
    case (pass_raises e)
    from forward_backward_trace [OF pass_raises(1)] show ?thesis
      by (intro exI [of _ "[]"]) simp
  next
    case (report_raises s1 e)
    show ?thesis
      by (rule after_report [OF report_raises(1,2), of "[]"]) simp_all
  next
    case (validation_raises s1 s3 e)
    from validate_trace [OF validation_raises(3)] obtain val where
      "trace s' = trace s3 @ val" "list_all is_validation val"
      "\<not> truthy (val_annotations cfg) \<longrightarrow> val = []" by blast
    then show ?thesis by (rule after_report [OF validation_raises(1,2)])
  next
    case (finished s1 s3)
    from validate_trace [OF finished(3)] obtain val where
      "trace s' = trace s3 @ val" "list_all is_validation val"
      "\<not> truthy (val_annotations cfg) \<longrightarrow> val = []" by blast
    then show ?thesis by (rule after_report [OF finished(1,2)])
  qed
qed

lemma body_trace_grows:
  assumes "body cfg b s = (c, s')"
  shows "\<exists>evs. trace s' = trace s @ evs"
  using body_events [OF assms] by blast

lemma body_finished:
  assumes "body cfg b s = (c, s')" and "\<forall>e. c \<noteq> Raise e"
  shows "iteration s' = iteration s + 1 \<and> (c = Break \<longleftrightarrow> iteration s' = iterations cfg)
         \<and> steps (trace s') = steps (trace s) + 1"
  using assms(1)
proof (cases rule: body_cases)
  case (pass_raises e)
  with assms(2) show ?thesis by simp
next
  case (report_raises s1 e)
  with assms(2) show ?thesis by simp
next
  case (validation_raises s1 s3 e)
  with assms(2) show ?thesis by simp
next
  case (finished s1 s3)
  have it: "iteration s' = iteration s + 1"
    using forward_backward_frame [OF finished(1)] report_frame [OF finished(2)]
      validate_frame [OF finished(3)] by simp
  obtain x y where fw: "fw_result b = Inr ([x], [y])"
    using forward_backward_Next [OF finished(1)] by blast
  obtain rep val where tr: "trace s' = trace s @ pass_events cfg b @ rep @ val"
    and rv: "list_all is_progress rep" "list_all is_validation val"
    using body_events [OF assms(1)] by blast
  have "steps rep = 0"
    using rv(1) by (intro steps_not_pass) (auto simp: list_all_iff dest: progress_not_pass)
  moreover have "steps val = 0"
    using rv(2) by (intro steps_not_pass) (auto simp: list_all_iff dest: validation_not_pass)
  moreover have "steps (pass_events cfg b) = 1"
    by (simp add: pass_events_scalar [OF fw] steps_def)
  ultimately have "steps (trace s') = steps (trace s) + 1"
    unfolding tr by simp
  with it finished(4) show ?thesis by simp
qed

lemma body_raise_iteration:
  assumes "body cfg b s = (Raise e, s')"
  shows "iteration s \<le> iteration s' \<and> iteration s' \<le> iteration s + 1"
  using assms
proof (cases rule: body_cases)
  case (pass_raises e)
  then show ?thesis using forward_backward_frame [OF pass_raises(1)] by simp
next
  case (report_raises s1 e)
  then show ?thesis
    using forward_backward_frame [OF report_raises(1)] report_frame [OF report_raises(2)] by simp
next
  case (validation_raises s1 s3 e)
  then show ?thesis
    using forward_backward_frame [OF validation_raises(1)] report_frame [OF validation_raises(2)]
      validate_frame [OF validation_raises(3)] by simp
next
  case (finished s1 s3)
  then show ?thesis by (simp split: if_splits)
qed

lemma body_state_at_break:
  assumes "body cfg b s = (Break, s')" and "is_master cfg"
  shows "st_iteration (state s') = Some (iterations cfg) \<and> st_optimizer (state s') \<noteq> None
         \<and> st_scheduler (state s') \<noteq> None"
  using assms(1)
proof (cases rule: body_cases)
  case (pass_raises e)
  then show ?thesis by simp
next
  case (report_raises s1 e)
  then show ?thesis by simp
next
  case (validation_raises s1 s3 e)
  then show ?thesis by simp
next
  case (finished s1 s3)
  have eq: "iteration s' = iterations cfg" using finished(4) by (simp split: if_splits)
  have "iteration (advance b s1) = iterations cfg" "state s' = state s3"
    using validate_frame [OF finished(3)] report_frame [OF finished(2)] eq by simp_all
  with assms(2) report_state [OF finished(2)] show ?thesis by simp
qed

subsection \<open>The loops\<close>

lemma for_batches_invariant:
  assumes "for_batches cfg bs s = (c, s')" and "I s"
    and step: "\<And>b s c s'. I s \<Longrightarrow> body cfg b s = (c, s') \<Longrightarrow> I s'"
  shows "I s'"
  using assms(1,2)
proof (induction bs arbitrary: s)
  case Nil
  then show ?case by simp
next
  case (Cons b bs)
  obtain c1 s1 where b1: "body cfg b s = (c1, s1)" by (cases "body cfg b s")
  have I1: "I s1" using step [OF Cons.prems(2) b1] .
  show ?case
  proof (cases c1)
    case Next
    with Cons.prems(1) b1 have "for_batches cfg bs s1 = (c, s')" by simp
    from Cons.IH [OF this I1] show ?thesis .
  next
    case Break
    with Cons.prems(1) b1 I1 show ?thesis by simp
  next
    case (Raise e)
    with Cons.prems(1) b1 I1 show ?thesis by simp
  qed
qed

lemma while_loop_invariant:
  assumes "while_loop fuel cfg data_iterator k s = Some (c, s')" and "I s"
    and reset: "\<And>s. I s \<Longrightarrow> I (s\<lparr>cls_losses := [], box_losses := []\<rparr>)"
    and step: "\<And>b s c s'. I s \<Longrightarrow> body cfg b s = (c, s') \<Longrightarrow> I s'"
  shows "I s'"
  using assms(1,2)
proof (induction fuel arbitrary: s k)
  case 0
  then show ?case by (simp split: if_splits)
next
  case (Suc fuel)
  show ?case
  proof (cases "iteration s < iterations cfg")
    case False
    with Suc.prems show ?thesis by simp
  next
    case True
    let ?s0 = "s\<lparr>cls_losses := [], box_losses := []\<rparr>"
    obtain c1 s1 where fb: "for_batches cfg (data_iterator k) ?s0 = (c1, s1)"
      by (cases "for_batches cfg (data_iterator k) ?s0")
    have I1: "I s1"
      by (rule for_batches_invariant [where I = I, OF fb reset [OF Suc.prems(2)]]) (rule step)
    show ?thesis
    proof (cases c1)
      case Next
      with Suc.prems(1) True fb have "while_loop fuel cfg data_iterator (Suc k) s1 = Some (c, s')"
        by simp
      from Suc.IH [OF this I1] show ?thesis .
    next
      case Break
      with Suc.prems(1) True fb have "while_loop fuel cfg data_iterator (Suc k) s1 = Some (c, s')"
        by simp
      from Suc.IH [OF this I1] show ?thesis .
    next
      case (Raise e)
      with Suc.prems(1) True fb I1 show ?thesis by simp
    qed
  qed
qed

lemma for_batches_count:
  assumes "for_batches cfg bs s = (c, s')" and "iteration s < iterations cfg"
  shows "(c = Next \<longrightarrow> iteration s' = iteration s + int (length bs) \<and> iteration s' < iterations cfg
            \<and> steps (trace s') = steps (trace s) + length bs)
       \<and> (c = Break \<longrightarrow> iteration s' = iterations cfg
            \<and> int (steps (trace s')) = int (steps (trace s)) + (iterations cfg - iteration s))"
  using assms
proof (induction bs arbitrary: s)
  case Nil
  then show ?case by simp
next
  case (Cons b bs)
  obtain c1 s1 where b1: "body cfg b s = (c1, s1)" by (cases "body cfg b s")
  show ?case
  proof (cases c1)
    case Next
    have f: "iteration s1 = iteration s + 1" "iteration s1 \<noteq> iterations cfg"
      "steps (trace s1) = steps (trace s) + 1"
      using body_finished [OF b1] Next by simp_all
    have lt: "iteration s1 < iterations cfg" using f(1,2) Cons.prems(2) by simp
    have "for_batches cfg bs s1 = (c, s')" using Cons.prems(1) b1 Next by simp
    from Cons.IH [OF this lt] f show ?thesis by auto
  next
    case Break
    have f: "iteration s1 = iteration s + 1" "iteration s1 = iterations cfg"
      "steps (trace s1) = steps (trace s) + 1"
      using body_finished [OF b1] Break by simp_all
    have "c = Break" "s' = s1" using Cons.prems(1) b1 Break by simp_all
    with f show ?thesis by simp
  next
    case (Raise e)
    with Cons.prems(1) b1 show ?thesis by auto
  qed
qed

lemma reset_fields [simp]:
  "iteration (s\<lparr>cls_losses := [], box_losses := []\<rparr>) = iteration s"
  "trace (s\<lparr>cls_losses := [], box_losses := []\<rparr>) = trace s"
  "state (s\<lparr>cls_losses := [], box_losses := []\<rparr>) = state s"
  by simp_all

lemma while_loop_terminates:
  assumes "\<forall>k. data_iterator k \<noteq> []" and "nat (iterations cfg - iteration s) \<le> fuel"
  shows "\<exists>c s'. while_loop fuel cfg data_iterator k s = Some (c, s')
           \<and> ((\<forall>e. c \<noteq> Raise e) \<longrightarrow>
                 iteration s' = max (iteration s) (iterations cfg)
                 \<and> steps (trace s') = steps (trace s) + nat (iterations cfg - iteration s))"
  using assms(2)
proof (induction fuel arbitrary: s k)
  case 0
  then show ?case by simp
next
  case (Suc fuel)
  show ?case
  proof (cases "iteration s < iterations cfg")
    case False
    then show ?thesis by simp
  next
    case True
    let ?s0 = "s\<lparr>cls_losses := [], box_losses := []\<rparr>"
    obtain c1 s1 where fb: "for_batches cfg (data_iterator k) ?s0 = (c1, s1)"
      by (cases "for_batches cfg (data_iterator k) ?s0")
    have lt0: "iteration ?s0 < iterations cfg" using True by simp
    note cnt = for_batches_count [OF fb lt0]
    have len: "0 < length (data_iterator k)" using assms(1) by simp
    show ?thesis
    proof (cases c1)
      case Next
      have f: "iteration s1 = iteration s + int (length (data_iterator k))"
        "iteration s1 < iterations cfg"
        "steps (trace s1) = steps (trace s) + length (data_iterator k)"
        using cnt Next by simp_all
      have "nat (iterations cfg - iteration s1) \<le> fuel"
        using f(1) len Suc.prems by linarith
      from Suc.IH [OF this, of "Suc k"] obtain c s' where
        w: "while_loop fuel cfg data_iterator (Suc k) s1 = Some (c, s')"
        and r: "(\<forall>e. c \<noteq> Raise e) \<longrightarrow> iteration s' = max (iteration s1) (iterations cfg)
                 \<and> steps (trace s') = steps (trace s1) + nat (iterations cfg - iteration s1)"
        by blast
      have "while_loop (Suc fuel) cfg data_iterator k s = Some (c, s')"
        using True fb Next w by simp
      moreover have "(\<forall>e. c \<noteq> Raise e) \<longrightarrow> iteration s' = max (iteration s) (iterations cfg)
                 \<and> steps (trace s') = steps (trace s) + nat (iterations cfg - iteration s)"
        using r f True by (auto simp: max_def)
      ultimately show ?thesis by blast
    next
      case Break
      have f: "iteration s1 = iterations cfg"
        "int (steps (trace s1)) = int (steps (trace s)) + (iterations cfg - iteration s)"
        using cnt Break by simp_all
      have "while_loop (Suc fuel) cfg data_iterator k s = while_loop fuel cfg data_iterator (Suc k) s1"
        using True fb Break by simp
      also have "\<dots> = Some (Next, s1)"
        using f(1) by (cases fuel) simp_all
      finally have w: "while_loop (Suc fuel) cfg data_iterator k s = Some (Next, s1)" .
      have "steps (trace s1) = steps (trace s) + nat (iterations cfg - iteration s)"
        using f(2) True by linarith
      with w f(1) True show ?thesis by (simp add: max_def)
    next
      case (Raise e)
      with True fb show ?thesis by simp
    qed
  qed
qed

subsection \<open>The whole call\<close>

lemma close_writer_fields [simp]:
  "iteration (close_writer cfg s) = iteration s"
  "state (close_writer cfg s) = state s"
  "trace (close_writer cfg s) = trace s @ (case logdir cfg of None \<Rightarrow> [] | Some d \<Rightarrow> [WriterClose])"
  by (simp_all add: close_writer_def split: option.splits)

lemma train_cases:
  assumes "train cfg st data_iterator fuel = Some (out, r)"
  obtains (caught) e s where "while_loop fuel cfg data_iterator 0 (prepare cfg st) = Some (Raise e, s)"
      and "is_Exception e" and "out = Caught e" and "r = close_writer cfg (emit [PrintExn e] s)"
  | (propagated) e where "while_loop fuel cfg data_iterator 0 (prepare cfg st) = Some (Raise e, r)"
      and "\<not> is_Exception e" and "out = Propagated e"
  | (completed) c s where "while_loop fuel cfg data_iterator 0 (prepare cfg st) = Some (c, s)"
      and "\<forall>e. c \<noteq> Raise e" and "out = Completed" and "r = close_writer cfg s"
proof (cases "while_loop fuel cfg data_iterator 0 (prepare cfg st)")
  case None
  with assms show ?thesis by (simp add: train_def)
next
  case (Some p)
  obtain c s where p: "p = (c, s)" by (cases p)
  show ?thesis
  proof (cases c)
    case Next
    with Some p assms show ?thesis by (intro completed [of c s]) (auto simp: train_def)
  next
    case Break
    with Some p assms show ?thesis by (intro completed [of c s]) (auto simp: train_def)
  next
    case (Raise e)
    show ?thesis
    proof (cases "is_Exception e")
      case True
      with Raise Some p assms show ?thesis by (intro caught [of e s]) (auto simp: train_def)
    next
      case False
      with Raise Some p assms show ?thesis by (intro propagated [of e]) (auto simp: train_def)
    qed
  qed
qed

lemma prepare_fields [simp]:
  "iteration (prepare cfg st) = initial_iteration st"
  "state (prepare cfg st) = st"
  "scheduler (prepare cfg st) = \<lparr>best = None, num_bad_epochs = 0\<rparr>"
  by (simp_all add: prepare_def Let_def)

lemma prepare_trace:
  "trace (prepare cfg st) =
     [AmpInitialize (opt_level (mixed_precision cfg)) loss_scale]
     @ (if 1 < world cfg then [WrapDistributed] else []) @ [ModelTrain]
     @ (case st_optimizer st of None \<Rightarrow> [] | Some o' \<Rightarrow> [LoadOptimizer])
     @ (if verbose cfg then [PrintSetup] else [])
     @ (case logdir cfg of None \<Rightarrow> [] | Some d \<Rightarrow> [WriterCreate d])"
  by (simp add: prepare_def Let_def)

text \<open>A property of events that the preparation, every pass through the body and the
  handler establish holds of every event of the trace.\<close>

lemma loop_events:
  assumes "while_loop fuel cfg data_iterator k s = Some (c, s')"
    and "\<forall>e\<in>set (trace s). P e"
    and step: "\<And>b s c s' evs. body cfg b s = (c, s') \<Longrightarrow> trace s' = trace s @ evs \<Longrightarrow> \<forall>e\<in>set evs. P e"
  shows "\<forall>e\<in>set (trace s'). P e"
proof (rule while_loop_invariant [where I = "\<lambda>s. \<forall>e\<in>set (trace s). P e", OF assms(1,2)])
  fix s :: loop_state
  assume "\<forall>e\<in>set (trace s). P e"
  then show "\<forall>e\<in>set (trace (s\<lparr>cls_losses := [], box_losses := []\<rparr>)). P e" by simp
next
  fix b s c s'
  assume I: "\<forall>e\<in>set (trace s). P e" and b: "body cfg b s = (c, s')"
  obtain evs where evs: "trace s' = trace s @ evs" using body_trace_grows [OF b] by blast
  from step [OF b evs] I evs show "\<forall>e\<in>set (trace s'). P e" by auto
qed

lemma train_events:
  assumes "train cfg st data_iterator fuel = Some (out, r)"
    and prep: "\<forall>e\<in>set (trace (prepare cfg st)). P e"
    and step: "\<And>b s c s' evs. body cfg b s = (c, s') \<Longrightarrow> trace s' = trace s @ evs \<Longrightarrow> \<forall>e\<in>set evs. P e"
    and fin: "\<And>e. P (PrintExn e)" "P WriterClose"
  shows "\<forall>e\<in>set (trace r). P e"
  using assms(1)
proof (cases rule: train_cases)
  case (caught e s)
  have "\<forall>e\<in>set (trace s). P e" by (rule loop_events [OF caught(1) prep step])
  with caught(4) fin show ?thesis by (auto split: option.splits)
next
  case (propagated e)
  show ?thesis by (rule loop_events [OF propagated(1) prep step])
next
  case (completed c s)
  have "\<forall>e\<in>set (trace s). P e" by (rule loop_events [OF completed(1) prep step])
  with completed(4) fin show ?thesis by (auto split: option.splits)
qed

lemma body_new_events:
  assumes "body cfg b s = (c, s')" and "trace s' = trace s @ evs" and "e \<in> set evs"
  shows "is_pass e \<or> is_validation e \<and> truthy (val_annotations cfg)
         \<or> is_progress e \<and> is_master cfg
             \<and> (2 < prof_train s + elapsed b \<or> iteration s + 1 = iterations cfg)
             \<and> (is_console e \<longrightarrow> verbose cfg) \<and> (is_tensorboard e \<longrightarrow> logdir cfg \<noteq> None)
             \<and> (is_metrics e \<longrightarrow> truthy (metrics_url cfg))"
proof -
  obtain rep val where tr: "trace s' = trace s @ pass_events cfg b @ rep @ val"
    and rep: "list_all is_progress rep"
      "rep \<noteq> [] \<longrightarrow> is_master cfg \<and> (2 < prof_train s + elapsed b \<or> iteration s + 1 = iterations cfg)"
      "\<forall>e\<in>set rep. (is_console e \<longrightarrow> verbose cfg) \<and> (is_tensorboard e \<longrightarrow> logdir cfg \<noteq> None)
                  \<and> (is_metrics e \<longrightarrow> truthy (metrics_url cfg))"
    and val: "list_all is_validation val" "\<not> truthy (val_annotations cfg) \<longrightarrow> val = []"
    using body_events [OF assms(1)] by blast
  have "evs = pass_events cfg b @ rep @ val"
    using tr assms(2) by simp
  with assms(3) consider "e \<in> set (pass_events cfg b)" | "e \<in> set rep" | "e \<in> set val"
    by auto
  then show ?thesis
  proof cases
    case 1
    with pass_events_kinds [of cfg b] show ?thesis by (auto simp: list_all_iff)
  next
    case 2
    with rep have "rep \<noteq> []" "is_progress e" by (auto simp: list_all_iff)
    with rep(2,3) 2 show ?thesis by blast
  next
    case 3
    with val have "val \<noteq> []" "is_validation e" by (auto simp: list_all_iff)
    with val(2) show ?thesis by blast
  qed
qed

subsection \<open>The reduction of the losses\<close>

text \<open>With the exact arithmetic, the reduction over \<open>world\<close> workers is their mean.\<close>

lemma reduce_loss_exact:
  assumes "1 < world cfg" and "int (length peers) = world cfg - 1"
    and "tensor_ops cfg = exact_arith"
  shows "reduce_loss cfg x peers = exact_mean (x # peers)"
proof -
  have "int (length (x # peers)) = world cfg" using assms(2) by simp
  then show ?thesis using assms(1,3)
    by (simp add: reduce_loss_def exact_arith_def exact_all_reduce_def exact_mean_def [of "x # peers"]
        del: exact_sum.simps)
qed

subsection \<open>The state dict when the loop has run to its end\<close>

lemma for_batches_break_state:
  assumes "for_batches cfg bs s = (Break, s')" and "is_master cfg"
  shows "st_iteration (state s') = Some (iterations cfg) \<and> st_optimizer (state s') \<noteq> None
         \<and> st_scheduler (state s') \<noteq> None"
  using assms(1)
proof (induction bs arbitrary: s)
  case Nil
  then show ?case by simp
next
  case (Cons b bs)
  obtain c1 s1 where b1: "body cfg b s = (c1, s1)" by (cases "body cfg b s")
  show ?case
  proof (cases c1)
    case Next
    with Cons.prems b1 have "for_batches cfg bs s1 = (Break, s')" by simp
    from Cons.IH [OF this] show ?thesis .
  next
    case Break
    with Cons.prems b1 have "s' = s1" by simp
    with body_state_at_break [OF b1 [unfolded Break] assms(2)] show ?thesis by simp
  next
    case (Raise e)
    with Cons.prems b1 show ?thesis by simp
  qed
qed

lemma while_loop_final_state:
  assumes "while_loop fuel cfg data_iterator k s = Some (c, s')" and "\<forall>e. c \<noteq> Raise e"
    and "is_master cfg"
    and "iteration s < iterations cfg \<or>
         st_iteration (state s) = Some (iterations cfg) \<and> st_optimizer (state s) \<noteq> None
           \<and> st_scheduler (state s) \<noteq> None"
  shows "st_iteration (state s') = Some (iterations cfg) \<and> st_optimizer (state s') \<noteq> None
         \<and> st_scheduler (state s') \<noteq> None"
  using assms(1,4)
proof (induction fuel arbitrary: s k)
  case 0
  then show ?case by (auto split: if_splits)
next
  case (Suc fuel)
  show ?case
  proof (cases "iteration s < iterations cfg")
    case False
    with Suc.prems show ?thesis by auto
  next
    case True
    let ?s0 = "s\<lparr>cls_losses := [], box_losses := []\<rparr>"
    obtain c1 s1 where fb: "for_batches cfg (data_iterator k) ?s0 = (c1, s1)"
      by (cases "for_batches cfg (data_iterator k) ?s0")
    have lt0: "iteration ?s0 < iterations cfg" using True by simp
    show ?thesis
    proof (cases c1)
      case Next
      have w: "while_loop fuel cfg data_iterator (Suc k) s1 = Some (c, s')"
        using Suc.prems(1) True fb Next by simp
      have "iteration s1 < iterations cfg"
        using for_batches_count [OF fb lt0] Next by simp
      with Suc.IH [OF w] show ?thesis by blast
    next
      case Break
      have w: "while_loop fuel cfg data_iterator (Suc k) s1 = Some (c, s')"
        using Suc.prems(1) True fb Break by simp
      from for_batches_break_state [OF fb [unfolded Break] assms(3)] Suc.IH [OF w]
      show ?thesis by blast
    next
      case (Raise e)
      with Suc.prems(1) True fb assms(2) show ?thesis by auto
    qed
  qed
qed

lemma kinds_not_save_or_close:
  "is_pass e \<Longrightarrow> e \<noteq> WriterClose"
  "is_validation e \<Longrightarrow> e \<noteq> WriterClose"
  "is_progress e \<Longrightarrow> e \<noteq> WriterClose"
  by (cases e; simp add: is_progress_def)+

lemma while_loop_trace_grows:
  assumes "while_loop fuel cfg data_iterator k s = Some (c, s')"
  shows "\<exists>evs. trace s' = trace s @ evs"
proof (rule while_loop_invariant [where I = "\<lambda>t. \<exists>evs. trace t = trace s @ evs", OF assms])
  show "\<exists>evs. trace s = trace s @ evs" by simp
next
  fix t :: loop_state
  assume "\<exists>evs. trace t = trace s @ evs"
  then show "\<exists>evs. trace (t\<lparr>cls_losses := [], box_losses := []\<rparr>) = trace s @ evs" by simp
next
  fix b t c t'
  assume "\<exists>evs. trace t = trace s @ evs" and "body cfg b t = (c, t')"
  with body_trace_grows [of cfg b t c t'] show "\<exists>evs. trace t' = trace s @ evs" by auto
qed

subsection \<open>Validation points\<close>

text \<open>With a validation set and a period that is not zero, the validation block runs
  exactly when the count equals \<open>iterations\<close> or is a multiple of the period.\<close>

lemma validation_guard:
  assumes "truthy (val_annotations cfg)" and "val_iterations cfg \<noteq> 0"
  shows "validate cfg b s =
           (if iteration s = iterations cfg \<or> iteration s mod val_iterations cfg = 0
            then run_validation cfg b s else (Next, s))"
  using assms by (simp add: validate_def)

text \<open>When \<^verbatim>\<open>infer\<close> returns and the state dict has an iteration entry, the master saves.\<close>

lemma checkpoint_saved:
  assumes "is_master cfg" and "val_result b = Inr f1_m" and "st_iteration (state s) = Some k"
  shows "\<exists>tr. run_validation cfg b s = (Next, emit [PrintSaving k, Save (state s)] tr)"
  using assms by (auto simp: run_validation_def Let_def split: metric.splits)

subsection \<open>The scheduler on a plateau\<close>

lemma scheduler_step_bad:
  assumes "best sch = Some bst" and "bst \<le> m"
  shows "scheduler_step m (sch, opt) =
           (if num_bad_epochs sch + 1 > 2
            then (sch\<lparr>num_bad_epochs := 0\<rparr>, opt\<lparr>opt_lr := opt_lr opt / 2\<rparr>)
            else (sch\<lparr>num_bad_epochs := num_bad_epochs sch + 1\<rparr>, opt))"
  using assms by (simp add: scheduler_step_def is_better_def patience_def factor_def Let_def)

lemma plateau_halvings:
  assumes "best sch = Some bst" and "num_bad_epochs sch \<le> 2" and "\<forall>m\<in>set ms. bst \<le> m"
  shows "opt_lr (snd (fold scheduler_step ms (sch, opt)))
           = opt_lr opt * (1 / 2) ^ ((num_bad_epochs sch + length ms) div 3)"
  using assms
proof (induction ms arbitrary: sch opt)
  case Nil
  then show ?case by simp
next
  case (Cons m ms)
  have bad: "bst \<le> m" and rest: "\<forall>m\<in>set ms. bst \<le> m" using Cons.prems(3) by simp_all
  show ?case
  proof (cases "num_bad_epochs sch = 2")
    case True
    let ?sch = "sch\<lparr>num_bad_epochs := 0\<rparr>" and ?opt = "opt\<lparr>opt_lr := opt_lr opt / 2\<rparr>"
    have step: "scheduler_step m (sch, opt) = (?sch, ?opt)"
      using scheduler_step_bad [OF Cons.prems(1) bad, of opt] True by simp
    have "opt_lr (snd (fold scheduler_step ms (?sch, ?opt)))
            = opt_lr ?opt * (1 / 2) ^ ((num_bad_epochs ?sch + length ms) div 3)"
      using Cons.prems(1) rest by (intro Cons.IH) simp_all
    moreover have "(num_bad_epochs sch + length (m # ms)) div 3 = Suc (length ms div 3)"
      using True by simp
    ultimately show ?thesis using step by simp
  next
    case False
    let ?sch = "sch\<lparr>num_bad_epochs := num_bad_epochs sch + 1\<rparr>"
    have step: "scheduler_step m (sch, opt) = (?sch, opt)"
      using scheduler_step_bad [OF Cons.prems(1) bad, of opt] False Cons.prems(2) by simp
    have "opt_lr (snd (fold scheduler_step ms (?sch, opt)))
            = opt_lr opt * (1 / 2) ^ ((num_bad_epochs ?sch + length ms) div 3)"
      using Cons.prems(1,2) False rest by (intro Cons.IH) simp_all
    then show ?thesis using step by simp
  qed
qed

subsection \<open>Evaluating the example runs\<close>

lemmas example_defs = example_cfg_def plain_cfg_def metrics_cfg_def distributed_cfg_def
  fresh_state_def resumed_state_def quick_batch_def distributed_batch_def slow_batch_def
  diverging_batch_def interrupted_batch_def quick_iterator_def slow_iterator_def
  diverging_iterator_def interrupted_iterator_def start_state_def

lemmas run_defs = train_def prepare_def initial_iteration_def body_def forward_backward_def
  advance_def report_def record_state_def validate_def run_validation_def emit_def
  reduce_loss_def exact_arith_def exact_mean_def exact_all_reduce_def close_writer_def
  opt_level_def loss_scale_def scheduler_step_def is_better_def factor_def patience_def Let_def

section \<open>The claims\<close>

text \<open>
  C1. The claim: with \<^verbatim>\<open>mixed_precision\<close> set, model and optimizer are initialised with an
  amp optimization level that differs from the one used without it. The source passes
  \<^verbatim>\<open>'O0' if mixed_precision else 'O0'\<close>: the level is 'O0' in both cases, while line 67
  announces the precision as 'mixed'. The theorem evaluates the code with the flag set.
\<close>

theorem opt_level_same_for_mixed_precision:
  "opt_level True = opt_level False
   \<and> hd (trace (prepare (cfg\<lparr>mixed_precision := True\<rparr>) st)) = AmpInitialize ''O0'' loss_scale"
  by (simp add: opt_level_def prepare_trace)

text \<open>
  C2. The scheduler is created with mode 'min', factor 0.5 and patience 2, and starts
  without a best metric. A validation whose metric is a number steps the scheduler with
  that metric, right after \<^verbatim>\<open>infer\<close>, and the step acts on the scheduler and on the learning
  rate of the optimizer; a metric that is a string leaves both alone. When the metric has
  not improved on the best one for three validations in a row, the third step halves the
  learning rate, and the first two leave it alone; over a plateau of any length the
  learning rate is halved once for every three validations.
\<close>

theorem scheduler_stepped_on_plateau:
  "scheduler (prepare cfg st) = \<lparr>best = None, num_bad_epochs = 0\<rparr> \<and> factor = 1 / 2 \<and> patience = 2
   \<and> (val_result b = Inr (MNum m) \<longrightarrow>
        (\<exists>rest. trace (snd (run_validation cfg b s))
                  = trace s @ [Infer, PrintMetric m, SchedulerStep m, ModelTrain] @ rest)
        \<and> (scheduler (snd (run_validation cfg b s)), optimizer (snd (run_validation cfg b s)))
            = scheduler_step m (scheduler s, optimizer s))
   \<and> (val_result b = Inr (MStr t) \<longrightarrow>
        scheduler (snd (run_validation cfg b s)) = scheduler s
        \<and> optimizer (snd (run_validation cfg b s)) = optimizer s)
   \<and> (best sch = Some bst \<and> num_bad_epochs sch = 0 \<and> bst \<le> m1 \<and> bst \<le> m2 \<and> bst \<le> m3 \<longrightarrow>
        opt_lr (snd (scheduler_step m1 (sch, opt))) = opt_lr opt
        \<and> opt_lr (snd (scheduler_step m2 (scheduler_step m1 (sch, opt)))) = opt_lr opt
        \<and> opt_lr (snd (scheduler_step m3 (scheduler_step m2 (scheduler_step m1 (sch, opt)))))
            = opt_lr opt / 2)
   \<and> (best sch = Some bst \<and> num_bad_epochs sch = 0 \<and> (\<forall>m\<in>set ms. bst \<le> m) \<longrightarrow>
        opt_lr (snd (fold scheduler_step ms (sch, opt))) = opt_lr opt * (1 / 2) ^ (length ms div 3))"
proof -
  have numeric: "(\<exists>rest. trace (snd (run_validation cfg b s))
                  = trace s @ [Infer, PrintMetric m, SchedulerStep m, ModelTrain] @ rest)
        \<and> (scheduler (snd (run_validation cfg b s)), optimizer (snd (run_validation cfg b s)))
            = scheduler_step m (scheduler s, optimizer s)"
    if "val_result b = Inr (MNum m)"
    using that by (auto simp: run_validation_def Let_def split: option.splits)
  have textual: "scheduler (snd (run_validation cfg b s)) = scheduler s
        \<and> optimizer (snd (run_validation cfg b s)) = optimizer s"
    if "val_result b = Inr (MStr t)"
    using that by (auto simp: run_validation_def Let_def split: option.splits)
  have plateau: "opt_lr (snd (scheduler_step m1 (sch, opt))) = opt_lr opt
        \<and> opt_lr (snd (scheduler_step m2 (scheduler_step m1 (sch, opt)))) = opt_lr opt
        \<and> opt_lr (snd (scheduler_step m3 (scheduler_step m2 (scheduler_step m1 (sch, opt)))))
            = opt_lr opt / 2"
    if "best sch = Some bst" "num_bad_epochs sch = 0" "bst \<le> m1" "bst \<le> m2" "bst \<le> m3"
    using that by (simp add: scheduler_step_def is_better_def patience_def factor_def Let_def)
  have long_plateau: "opt_lr (snd (fold scheduler_step ms (sch, opt)))
        = opt_lr opt * (1 / 2) ^ (length ms div 3)"
    if "best sch = Some bst" "num_bad_epochs sch = 0" "\<forall>m\<in>set ms. bst \<le> m"
    using plateau_halvings [OF that(1) _ that(3), of opt] that(2) by simp
  from numeric textual plateau long_plateau show ?thesis by (simp add: factor_def patience_def)
qed

theorem scheduler_stepped_on_plateau_witness:
  "val_result quick_batch = Inr (MNum (3 / 4))
   \<and> SchedulerStep (3 / 4) \<in> set (trace (snd (run_validation example_cfg quick_batch start_state)))
   \<and> best (scheduler (snd (run_validation example_cfg quick_batch start_state))) = Some (3 / 4)
   \<and> val_result (quick_batch\<lparr>val_result := Inr (MStr ''none'')\<rparr>) = Inr (MStr ''none'')
   \<and> scheduler (snd (run_validation example_cfg (quick_batch\<lparr>val_result := Inr (MStr ''none'')\<rparr>)
        start_state)) = scheduler start_state
   \<and> best seen_half = Some (1 / 2) \<and> num_bad_epochs seen_half = 0
   \<and> (1 / 2 :: rat) \<le> 3 / 4 \<and> (1 / 2 :: rat) \<le> 1 / 2 \<and> (1 / 2 :: rat) \<le> 1
   \<and> opt_lr (snd (scheduler_step (1 / 2) (scheduler_step (3 / 4) (seen_half, some_optimizer)))) = 1 / 64
   \<and> opt_lr (snd (scheduler_step 1 (scheduler_step (1 / 2) (scheduler_step (3 / 4)
        (seen_half, some_optimizer))))) = 1 / 128
   \<and> list_all (\<lambda>m. 1 / 2 \<le> m) [3 / 4, 1 / 2, 1, 2, 5, 1 / 2, 7 :: rat]
   \<and> opt_lr (snd (fold scheduler_step [3 / 4, 1 / 2, 1, 2, 5, 1 / 2, 7] (seen_half, some_optimizer)))
       = 1 / 256"
proof -
  have h: "val_result quick_batch = Inr (MNum (3 / 4))"
    "val_result (quick_batch\<lparr>val_result := Inr (MStr ''none'')\<rparr>) = Inr (MStr ''none'')"
    "best seen_half = Some (1 / 2)" "num_bad_epochs seen_half = 0"
    "(1 / 2 :: rat) \<le> 3 / 4" "(1 / 2 :: rat) \<le> 1 / 2" "(1 / 2 :: rat) \<le> 1"
    "opt_lr some_optimizer = 1 / 64"
    "scheduler_step (3 / 4) (scheduler start_state, optimizer start_state)
       = (\<lparr>best = Some (3 / 4), num_bad_epochs = 0\<rparr>, optimizer start_state)"
    by (simp_all add: example_defs seen_half_def some_optimizer_def prepare_def
        scheduler_step_def is_better_def patience_def Let_def)
  note inst = scheduler_stepped_on_plateau [where b = quick_batch and m = "3 / 4" and cfg = example_cfg
      and s = start_state and sch = seen_half and opt = some_optimizer and bst = "1 / 2"
      and ?m1.0 = "3 / 4" and ?m2.0 = "1 / 2" and ?m3.0 = 1
      and ms = "[3 / 4, 1 / 2, 1, 2, 5, 1 / 2, 7]"]
  note inst' = scheduler_stepped_on_plateau [where b = "quick_batch\<lparr>val_result := Inr (MStr ''none'')\<rparr>"
      and t = "''none''" and cfg = example_cfg and s = start_state]
  from inst h have a: "SchedulerStep (3 / 4) \<in> set (trace (snd (run_validation example_cfg quick_batch start_state)))"
    "best (scheduler (snd (run_validation example_cfg quick_batch start_state))) = Some (3 / 4)"
    by auto
  from inst h have p:
    "opt_lr (snd (scheduler_step (1 / 2) (scheduler_step (3 / 4) (seen_half, some_optimizer)))) = 1 / 64"
    "opt_lr (snd (scheduler_step 1 (scheduler_step (1 / 2) (scheduler_step (3 / 4)
        (seen_half, some_optimizer))))) = 1 / 128"
    by simp_all
  from inst' h(2) have t: "scheduler (snd (run_validation example_cfg
        (quick_batch\<lparr>val_result := Inr (MStr ''none'')\<rparr>) start_state)) = scheduler start_state"
    by blast
  have l: "list_all (\<lambda>m. 1 / 2 \<le> m) [3 / 4, 1 / 2, 1, 2, 5, 1 / 2, 7 :: rat]" by simp
  from inst h l
  have f: "opt_lr (snd (fold scheduler_step [3 / 4, 1 / 2, 1, 2, 5, 1 / 2, 7] (seen_half, some_optimizer)))
       = 1 / 256"
    by (simp add: power2_eq_square)
  from h a p t l f show ?thesis by simp
qed

text \<open>
  C3. The claim: with \<^verbatim>\<open>val_annotations\<close> given, validation runs exactly at the counts
  that are a multiple of \<^verbatim>\<open>val_iterations\<close> or equal to \<open>iterations\<close>, and at each such
  point the master saves the model. Line 169 reads \<^verbatim>\<open>state['iteration']\<close>, an entry that
  only a progress report writes. For a new model whose first validation comes before the
  first report, the lookup raises KeyError: \<^verbatim>\<open>infer\<close> has run, nothing is saved, and the
  handler ends the training at count 1 of 2.
\<close>

theorem checkpoint_keyerror_on_first_validation:
  "train example_cfg fresh_state quick_iterator 2
     = Some (Caught (KeyError ''iteration''), keyerror_run)
   \<and> iteration keyerror_run = 1 \<and> iterations example_cfg = 2
   \<and> Infer \<in> set (trace keyerror_run)
   \<and> filter is_save (trace keyerror_run) = []"
proof -
  have "train example_cfg fresh_state quick_iterator 2
     = Some (Caught (KeyError ''iteration''), keyerror_run)"
    by (simp add: keyerror_run_def example_defs run_defs eval_nat_numeral)
  moreover have "iteration keyerror_run = 1"
    by (simp add: keyerror_run_def example_defs run_defs eval_nat_numeral)
  moreover have "iterations example_cfg = 2" by (simp add: example_cfg_def)
  moreover have "Infer \<in> set (trace keyerror_run)"
    by (simp add: keyerror_run_def example_defs run_defs eval_nat_numeral)
  moreover have "filter is_save (trace keyerror_run) = []"
    by (simp add: keyerror_run_def example_defs run_defs eval_nat_numeral)
  ultimately show ?thesis by blast
qed

text \<open>
  C4. In a run with more than one worker, the classification loss and the box loss that
  the master records for an iteration are the all-reduce, over all workers, of the
  batch-mean losses of the workers, divided by \<open>world\<close>; with \<open>world\<close> workers and
  arithmetic that does not round, this is the mean of their batch-mean losses.
\<close>

theorem losses_averaged_over_workers:
  assumes "1 < world cfg" and "is_master cfg" and "fw_result b = Inr ([x], [y])"
  shows "cls_losses (snd (forward_backward cfg b s))
           = cls_losses s @ [t_div (tensor_ops cfg)
                               (t_all_reduce (tensor_ops cfg) x (peers_cls b)) (world cfg)]
       \<and> box_losses (snd (forward_backward cfg b s))
           = box_losses s @ [t_div (tensor_ops cfg)
                               (t_all_reduce (tensor_ops cfg) y (peers_box b)) (world cfg)]
       \<and> (tensor_ops cfg = exact_arith \<and> int (length (peers_cls b)) = world cfg - 1
            \<and> int (length (peers_box b)) = world cfg - 1 \<longrightarrow>
            cls_losses (snd (forward_backward cfg b s)) = cls_losses s @ [exact_mean (x # peers_cls b)]
            \<and> box_losses (snd (forward_backward cfg b s)) = box_losses s @ [exact_mean (y # peers_box b)])"
proof -
  have rec: "cls_losses (snd (forward_backward cfg b s)) = cls_losses s @ [reduce_loss cfg x (peers_cls b)]"
    "box_losses (snd (forward_backward cfg b s)) = box_losses s @ [reduce_loss cfg y (peers_box b)]"
    using assms(2,3) by (simp_all add: forward_backward_def Let_def)
  have red: "reduce_loss cfg z peers
      = t_div (tensor_ops cfg) (t_all_reduce (tensor_ops cfg) z peers) (world cfg)" for z peers
    using assms(1) by (simp add: reduce_loss_def)
  have exact: "reduce_loss cfg z peers = exact_mean (z # peers)"
    if "tensor_ops cfg = exact_arith" "int (length peers) = world cfg - 1" for z peers
    using reduce_loss_exact [OF assms(1) that(2,1)] .
  from rec red exact show ?thesis by metis
qed

theorem losses_averaged_over_workers_witness:
  "1 < world distributed_cfg \<and> is_master distributed_cfg
   \<and> fw_result distributed_batch = Inr ([Fin 1], [Fin 2])
   \<and> tensor_ops distributed_cfg = exact_arith
   \<and> int (length (peers_cls distributed_batch)) = world distributed_cfg - 1
   \<and> int (length (peers_box distributed_batch)) = world distributed_cfg - 1
   \<and> cls_losses (snd (forward_backward distributed_cfg distributed_batch start_state)) = [Fin 2]
   \<and> box_losses (snd (forward_backward distributed_cfg distributed_batch start_state)) = [Fin 4]"
proof -
  have h: "1 < world distributed_cfg" "is_master distributed_cfg"
    "fw_result distributed_batch = Inr ([Fin 1], [Fin 2])"
    by (simp_all add: example_defs)
  have e: "tensor_ops distributed_cfg = exact_arith"
    "int (length (peers_cls distributed_batch)) = world distributed_cfg - 1"
    "int (length (peers_box distributed_batch)) = world distributed_cfg - 1"
    by (simp_all add: example_defs)
  have s: "cls_losses start_state = []" "box_losses start_state = []"
    by (simp_all add: start_state_def prepare_def Let_def)
  have m: "exact_mean (Fin 1 # peers_cls distributed_batch) = Fin 2"
    "exact_mean (Fin 2 # peers_box distributed_batch) = Fin 4"
    by (simp_all add: exact_mean_def example_defs)
  from losses_averaged_over_workers [OF h, of start_state] e s m
  have "cls_losses (snd (forward_backward distributed_cfg distributed_batch start_state)) = [Fin 2]
      \<and> box_losses (snd (forward_backward distributed_cfg distributed_batch start_state)) = [Fin 4]"
    by auto
  with h e show ?thesis by blast
qed

text \<open>
  C5. The progress report goes to the console, to TensorBoard and to the metrics service
  only on the master, and only when the profiler's accumulated training time exceeds two
  seconds or the count has reached \<open>iterations\<close>; the console line needs \<open>verbose\<close>,
  the TensorBoard scalars need a \<open>logdir\<close> that is not None, the metrics post needs a
  \<open>metrics_url\<close> that is set. The first part is about the events one pass through the
  loop body adds, the second about every event of a whole call of train.
\<close>

theorem progress_report_guarded:
  "(body cfg b s = (c, s') \<and> trace s' = trace s @ evs \<and> e \<in> set evs \<and> is_progress e
      \<longrightarrow> is_master cfg \<and> (2 < prof_train s + elapsed b \<or> iteration s + 1 = iterations cfg)
          \<and> (is_console e \<longrightarrow> verbose cfg) \<and> (is_tensorboard e \<longrightarrow> logdir cfg \<noteq> None)
          \<and> (is_metrics e \<longrightarrow> truthy (metrics_url cfg)))
   \<and> (train cfg st data_iterator fuel = Some (out, r) \<and> e' \<in> set (trace r) \<and> is_progress e'
      \<longrightarrow> is_master cfg \<and> (is_console e' \<longrightarrow> verbose cfg) \<and> (is_tensorboard e' \<longrightarrow> logdir cfg \<noteq> None)
          \<and> (is_metrics e' \<longrightarrow> truthy (metrics_url cfg)))"
proof -
  let ?P = "\<lambda>e. is_progress e \<longrightarrow> is_master cfg \<and> (is_console e \<longrightarrow> verbose cfg)
                 \<and> (is_tensorboard e \<longrightarrow> logdir cfg \<noteq> None) \<and> (is_metrics e \<longrightarrow> truthy (metrics_url cfg))"
  have one_pass: "is_master cfg \<and> (2 < prof_train s + elapsed b \<or> iteration s + 1 = iterations cfg)
          \<and> (is_console e \<longrightarrow> verbose cfg) \<and> (is_tensorboard e \<longrightarrow> logdir cfg \<noteq> None)
          \<and> (is_metrics e \<longrightarrow> truthy (metrics_url cfg))"
    if b: "body cfg b s = (c, s')" "trace s' = trace s @ evs" "e \<in> set evs" and p: "is_progress e"
    using body_new_events [OF b] p pass_not_progress [of e] validation_not_progress [of e] by blast
  have whole_call: "?P e'"
    if t: "train cfg st data_iterator fuel = Some (out, r)" and e: "e' \<in> set (trace r)"
  proof -
    have "\<forall>e\<in>set (trace r). ?P e"
    proof (rule train_events [OF t])
      show "\<forall>e\<in>set (trace (prepare cfg st)). ?P e"
        by (auto simp: prepare_trace is_progress_def split: option.splits)
    next
      fix b s c s' evs
      assume b: "body cfg b s = (c, s')" "trace s' = trace s @ evs"
      show "\<forall>e\<in>set evs. ?P e"
      proof
        fix e assume "e \<in> set evs"
        with body_new_events [OF b, of e] pass_not_progress [of e] validation_not_progress [of e]
        show "?P e" by blast
      qed
    next
      fix e show "?P (PrintExn e)" by (simp add: is_progress_def)
    next
      show "?P WriterClose" by (simp add: is_progress_def)
    qed
    with e show ?thesis by blast
  qed
  from one_pass whole_call show ?thesis by blast
qed

theorem progress_report_guarded_witness:
  "body example_cfg slow_batch start_state = (Next, after_slow)
   \<and> trace after_slow = trace start_state @ slow_events
   \<and> ConsoleProgress 1 (Fin 1) (Fin 2) (1 / 64) \<in> set slow_events
   \<and> is_progress (ConsoleProgress 1 (Fin 1) (Fin 2) (1 / 64))
   \<and> is_master example_cfg \<and> 2 < prof_train start_state + elapsed slow_batch
   \<and> verbose example_cfg
   \<and> train example_cfg fresh_state slow_iterator 2 = Some (Completed, slow_run)
   \<and> AddScalar ''box_loss'' (Fin 2) 2 \<in> set (trace slow_run)
   \<and> is_progress (AddScalar ''box_loss'' (Fin 2) 2)
   \<and> logdir example_cfg \<noteq> None"
proof -
  have b: "body example_cfg slow_batch start_state = (Next, after_slow)"
    by (simp add: after_slow_def example_defs run_defs)
  have tr: "trace after_slow = trace start_state @ slow_events"
    by (simp add: slow_events_def after_slow_def example_defs run_defs)
  have e: "ConsoleProgress 1 (Fin 1) (Fin 2) (1 / 64) \<in> set slow_events"
    by (simp add: slow_events_def after_slow_def example_defs run_defs)
  have p: "is_progress (ConsoleProgress 1 (Fin 1) (Fin 2) (1 / 64))"
    "is_progress (AddScalar ''box_loss'' (Fin 2) 2)"
    by (simp_all add: is_progress_def)
  have t: "train example_cfg fresh_state slow_iterator 2 = Some (Completed, slow_run)"
    by (simp add: slow_run_def example_defs run_defs eval_nat_numeral)
  have e': "AddScalar ''box_loss'' (Fin 2) 2 \<in> set (trace slow_run)"
    by (simp add: slow_run_def example_defs run_defs eval_nat_numeral)
  have g: "2 < prof_train start_state + elapsed slow_batch"
    by (simp add: example_defs prepare_def Let_def)
  from progress_report_guarded [of example_cfg slow_batch start_state Next after_slow slow_events
      "ConsoleProgress 1 (Fin 1) (Fin 2) (1 / 64)" fresh_state slow_iterator 2 Completed slow_run
      "AddScalar ''box_loss'' (Fin 2) 2"] b tr e p t e' g
  show ?thesis by simp
qed

text \<open>
  C6. The claim: with a data iterator that yields at least one batch per pass, the loop
  starts from the count stored in the state dict (0 when absent), adds one per processed
  batch and stops as soon as the count reaches \<open>iterations\<close>, after exactly
  \<open>iterations\<close> minus the initial count steps. Two runs over iterators that yield one
  batch per pass show otherwise. In the first the loss of the first batch is not finite:
  the loop ends in the handler with the count still 0, not 2. In the second the checkpoint
  has count 5 and 2 iterations are requested: no step is performed, while \<open>iterations\<close>
  minus the initial count is \<open>-3\<close>.
\<close>

theorem step_count_counterexample:
  "train example_cfg fresh_state diverging_iterator 2
     = Some (Caught (RuntimeError diverging), diverged_run)
   \<and> iteration diverged_run = 0
   \<and> iterations example_cfg - initial_iteration fresh_state = 2
   \<and> train plain_cfg resumed_state quick_iterator 2 = Some (Completed, resumed_run)
   \<and> int (steps (trace resumed_run)) = 0
   \<and> iterations plain_cfg - initial_iteration resumed_state = - 3"
proof -
  have "train example_cfg fresh_state diverging_iterator 2
     = Some (Caught (RuntimeError diverging), diverged_run)"
    by (simp add: diverged_run_def example_defs run_defs eval_nat_numeral)
  moreover have "iteration diverged_run = 0"
    by (simp add: diverged_run_def example_defs run_defs eval_nat_numeral)
  moreover have "iterations example_cfg - initial_iteration fresh_state = 2"
    by (simp add: example_defs initial_iteration_def)
  moreover have "train plain_cfg resumed_state quick_iterator 2 = Some (Completed, resumed_run)"
    by (simp add: resumed_run_def example_defs run_defs eval_nat_numeral)
  moreover have "int (steps (trace resumed_run)) = 0"
    by (simp add: resumed_run_def example_defs run_defs steps_def eval_nat_numeral)
  moreover have "iterations plain_cfg - initial_iteration resumed_state = - 3"
    by (simp add: example_defs initial_iteration_def)
  ultimately show ?thesis by blast
qed

text \<open>
  C6, amended. With a data iterator that yields at least one batch per pass the loop
  terminates: fuel for \<open>iterations\<close> minus the initial count passes is enough for train to
  end. The loop starts from the count stored in the state dict (0 when absent); a pass
  through the body that raises no exception adds exactly one to the count and breaks
  exactly when the count equals \<open>iterations\<close>; and when no exception is raised the loop
  stops with the count at the larger of the initial count and \<open>iterations\<close>, after
  exactly \<open>max 0 (iterations - initial count)\<close> steps.
\<close>

theorem loop_terminates_with_exact_count:
  assumes "\<forall>k. data_iterator k \<noteq> []"
    and "nat (iterations cfg - initial_iteration st) \<le> fuel"
  shows "iteration (prepare cfg st) = initial_iteration st
       \<and> (body cfg b s = (c, s') \<and> (\<forall>e. c \<noteq> Raise e) \<longrightarrow>
            iteration s' = iteration s + 1 \<and> (c = Break \<longleftrightarrow> iteration s' = iterations cfg))
       \<and> (\<exists>out r. train cfg st data_iterator fuel = Some (out, r)
            \<and> (out = Completed \<longrightarrow>
                  iteration r = max (initial_iteration st) (iterations cfg)
                  \<and> int (steps (trace r)) = max 0 (iterations cfg - initial_iteration st)
                  \<and> iteration r = initial_iteration st + int (steps (trace r))))"
proof -
  have one: "iteration s' = iteration s + 1 \<and> (c = Break \<longleftrightarrow> iteration s' = iterations cfg)"
    if "body cfg b s = (c, s')" "\<forall>e. c \<noteq> Raise e"
    using body_finished [OF that] by simp
  have no_steps: "steps (trace (prepare cfg st)) = 0"
    by (simp add: prepare_trace steps_def split: option.splits)
  have fuel: "nat (iterations cfg - iteration (prepare cfg st)) \<le> fuel"
    using assms(2) by simp
  from while_loop_terminates [OF assms(1) fuel, of 0] obtain c s where
    w: "while_loop fuel cfg data_iterator 0 (prepare cfg st) = Some (c, s)"
    and fin: "(\<forall>e. c \<noteq> Raise e) \<longrightarrow>
                 iteration s = max (iteration (prepare cfg st)) (iterations cfg)
                 \<and> steps (trace s) = steps (trace (prepare cfg st))
                     + nat (iterations cfg - iteration (prepare cfg st))"
    by blast
  have whole: "\<exists>out r. train cfg st data_iterator fuel = Some (out, r)
            \<and> (out = Completed \<longrightarrow>
                  iteration r = max (initial_iteration st) (iterations cfg)
                  \<and> int (steps (trace r)) = max 0 (iterations cfg - initial_iteration st)
                  \<and> iteration r = initial_iteration st + int (steps (trace r)))"
  proof (cases "\<exists>e. c = Raise e")
    case True
    then obtain e where e: "c = Raise e" by blast
    show ?thesis
      using w e by (cases "is_Exception e") (simp_all add: train_def)
  next
    case False
    then have t: "train cfg st data_iterator fuel = Some (Completed, close_writer cfg s)"
      using w by (cases c) (simp_all add: train_def)
    have "steps (trace (close_writer cfg s)) = steps (trace s)"
      by (simp add: steps_def split: option.splits)
    with fin False no_steps
    have "iteration (close_writer cfg s) = max (initial_iteration st) (iterations cfg)
        \<and> int (steps (trace (close_writer cfg s))) = max 0 (iterations cfg - initial_iteration st)"
      by (simp add: max_def)
    then show ?thesis using t by (auto simp: max_def)
  qed
  from one whole show ?thesis by simp
qed

theorem loop_terminates_with_exact_count_witness:
  "(\<forall>k. quick_iterator k \<noteq> [])
   \<and> nat (iterations plain_cfg - initial_iteration fresh_state) \<le> 2
   \<and> iteration (prepare plain_cfg fresh_state) = 0
   \<and> body plain_cfg quick_batch start_state = (Next, snd (body plain_cfg quick_batch start_state))
   \<and> iteration (snd (body plain_cfg quick_batch start_state)) = iteration start_state + 1
   \<and> train plain_cfg fresh_state quick_iterator 2 = Some (Completed, quick_run)
   \<and> iteration quick_run = 2
   \<and> steps (trace quick_run) = 2"
proof -
  have h: "\<forall>k. quick_iterator k \<noteq> []"
    "nat (iterations plain_cfg - initial_iteration fresh_state) \<le> 2"
    by (simp_all add: example_defs initial_iteration_def)
  have b: "body plain_cfg quick_batch start_state = (Next, snd (body plain_cfg quick_batch start_state))"
    by (simp add: example_defs run_defs)
  have t: "train plain_cfg fresh_state quick_iterator 2 = Some (Completed, quick_run)"
    by (simp add: quick_run_def example_defs run_defs eval_nat_numeral)
  have i: "initial_iteration fresh_state = 0" "iterations plain_cfg = 2"
    by (simp_all add: example_defs initial_iteration_def)
  from loop_terminates_with_exact_count [OF h, where b = quick_batch and s = start_state
      and c = Next and s' = "snd (body plain_cfg quick_batch start_state)"] h b t i
  show ?thesis by auto
qed

text \<open>
  C7. Every pass through the loop body whose forward pass returns a classification loss
  and a box loss (two scalars) performs, in this order: zeroing the gradients, the forward
  pass, the backward pass on the sum of the two losses scaled by the loss scale 128, and
  the optimizer step. These are the first four events the pass adds to the trace.
\<close>

theorem body_step_order:
  assumes "fw_result b = Inr ([x], [y])"
  shows "\<exists>rest. trace (snd (body cfg b s))
           = trace s @ [ZeroGrad, Forward,
                        Backward (t_scale (tensor_ops cfg) 128 (t_add (tensor_ops cfg) x y)),
                        OptimizerStep] @ rest"
proof -
  obtain c s' where b: "body cfg b s = (c, s')" by (cases "body cfg b s")
  from body_events [OF b] pass_events_scalar [OF assms, of cfg] show ?thesis
    unfolding b by (auto simp: loss_scale_def)
qed

theorem body_step_order_witness:
  "fw_result quick_batch = Inr ([Fin 1], [Fin 2])
   \<and> (\<exists>rest. trace (snd (body example_cfg quick_batch start_state))
         = trace start_state @ [ZeroGrad, Forward, Backward (Fin 384), OptimizerStep] @ rest)"
proof -
  have h: "fw_result quick_batch = Inr ([Fin 1], [Fin 2])" by (simp add: quick_batch_def)
  have v: "t_scale (tensor_ops example_cfg) 128 (t_add (tensor_ops example_cfg) (Fin 1) (Fin 2)) = Fin 384"
    by (simp add: example_cfg_def exact_arith_def)
  from h body_step_order [OF h, of example_cfg start_state] v show ?thesis by simp
qed




text \<open>
  Without a validation set nothing is ever saved, whatever way the call ends. When no
  metrics service is set, a report that is due writes the three entries of the state dict,
  and after a run of the master through the loop to its end the entries are there.
\<close>

lemma no_save_events:
  assumes "\<not> truthy (val_annotations cfg)"
    and "train cfg st data_iterator fuel = Some (out, r)"
  shows "list_all (\<lambda>e. \<not> is_save e) (trace r)
       \<and> (\<not> truthy (metrics_url cfg) \<and> is_master cfg
            \<and> (2 < prof_train s \<or> iteration s = iterations cfg) \<longrightarrow>
            state (snd (report cfg s)) = (state s)\<lparr>st_iteration := Some (iteration s),
              st_optimizer := Some (optimizer s), st_scheduler := Some (scheduler s)\<rparr>)
       \<and> (out = Completed \<and> is_master cfg \<and> initial_iteration st < iterations cfg \<longrightarrow>
            st_iteration (state r) = Some (iterations cfg) \<and> st_optimizer (state r) \<noteq> None
            \<and> st_scheduler (state r) \<noteq> None)"
proof -
  have "\<forall>e\<in>set (trace r). \<not> is_save e"
  proof (rule train_events [OF assms(2)])
    show "\<forall>e\<in>set (trace (prepare cfg st)). \<not> is_save e"
      by (auto simp: prepare_trace split: option.splits)
  next
    fix b s c s' evs
    assume b: "body cfg b s = (c, s')" "trace s' = trace s @ evs"
    show "\<forall>e\<in>set evs. \<not> is_save e"
    proof
      fix e assume "e \<in> set evs"
      with body_new_events [OF b, of e] assms(1) pass_not_save [of e] progress_not_save [of e]
      show "\<not> is_save e" by blast
    qed
  next
    fix e show "\<not> is_save (PrintExn e)" by simp
  next
    show "\<not> is_save WriterClose" by simp
  qed
  then have no_save: "list_all (\<lambda>e. \<not> is_save e) (trace r)" by (simp add: list_all_iff)
  have reported: "state (snd (report cfg s)) = (state s)\<lparr>st_iteration := Some (iteration s),
              st_optimizer := Some (optimizer s), st_scheduler := Some (scheduler s)\<rparr>"
    if "\<not> truthy (metrics_url cfg)" "is_master cfg" "2 < prof_train s \<or> iteration s = iterations cfg"
  proof -
    have "report cfg s = (Next, snd (report cfg s))"
      using report_returns [OF that(1), of s] by (metis prod.collapse)
    from report_state [OF this] that(2,3) show ?thesis by simp
  qed
  have at_end: "st_iteration (state r) = Some (iterations cfg) \<and> st_optimizer (state r) \<noteq> None
            \<and> st_scheduler (state r) \<noteq> None"
    if "out = Completed" "is_master cfg" "initial_iteration st < iterations cfg"
    using assms(2)
  proof (cases rule: train_cases)
    case (caught e s)
    with that show ?thesis by simp
  next
    case (propagated e)
    with that show ?thesis by simp
  next
    case (completed c s)
    from while_loop_final_state [OF completed(1,2) that(2)] that(3) completed(4)
    show ?thesis by simp
  qed
  from no_save reported at_end show ?thesis by blast
qed

text \<open>
  C9. The claim: when \<^verbatim>\<open>val_annotations\<close> is falsy, \<^verbatim>\<open>nn_model.save\<close> is never called,
  even though the state dict is still updated with the iteration, optimizer and scheduler
  entries at reporting points. Nothing is saved indeed. But with \<^verbatim>\<open>metrics_url\<close> set,
  line 141 applies \<^verbatim>\<open>statistics.mean\<close> to tensors and raises TypeError before the update
  of line 148: at the first reporting point of this run (three seconds after the start)
  the progress line is printed, the state dict stays as it was, and the handler ends the
  training.
\<close>

theorem state_dict_not_updated_with_metrics_url:
  "\<not> truthy (val_annotations metrics_cfg)
   \<and> train metrics_cfg fresh_state slow_iterator 2
       = Some (Caught (TypeError mean_of_tensors), metrics_run)
   \<and> ConsoleProgress 1 (Fin 1) (Fin 2) (1 / 64) \<in> set (trace metrics_run)
   \<and> state metrics_run = fresh_state
   \<and> iteration metrics_run = 1 \<and> iterations metrics_cfg = 2
   \<and> filter is_save (trace metrics_run) = []"
proof -
  have "\<not> truthy (val_annotations metrics_cfg)" "iterations metrics_cfg = 2"
    by (simp_all add: example_defs)
  moreover have "train metrics_cfg fresh_state slow_iterator 2
       = Some (Caught (TypeError mean_of_tensors), metrics_run)"
    by (simp add: metrics_run_def example_defs run_defs eval_nat_numeral)
  moreover have "ConsoleProgress 1 (Fin 1) (Fin 2) (1 / 64) \<in> set (trace metrics_run)"
    by (simp add: metrics_run_def example_defs run_defs eval_nat_numeral)
  moreover have "state metrics_run = fresh_state"
    by (simp add: metrics_run_def example_defs run_defs eval_nat_numeral)
  moreover have "iteration metrics_run = 1"
    by (simp add: metrics_run_def example_defs run_defs eval_nat_numeral)
  moreover have "filter is_save (trace metrics_run) = []"
    by (simp add: metrics_run_def example_defs run_defs eval_nat_numeral)
  ultimately show ?thesis by blast
qed

text \<open>
  C10. Whenever \<^verbatim>\<open>logdir\<close> is not None and train returns, the TensorBoard writer that
  was created before the loop has been closed: closing it is the last event of the trace,
  also when the loop ended in the exception handler.
\<close>

theorem writer_closed_on_return:
  assumes "train cfg st data_iterator fuel = Some (out, r)" and "logdir cfg = Some d"
    and "\<forall>e. out \<noteq> Propagated e"
  shows "\<exists>tr. trace r = tr @ [WriterClose] \<and> WriterCreate d \<in> set tr \<and> WriterClose \<notin> set tr"
proof -
  have prep: "\<forall>e\<in>set (trace (prepare cfg st)). e \<noteq> WriterClose"
    by (auto simp: prepare_trace split: option.splits)
  have created: "WriterCreate d \<in> set (trace (prepare cfg st))"
    using assms(2) by (simp add: prepare_trace)
  have in_loop: "WriterCreate d \<in> set (trace s) \<and> WriterClose \<notin> set (trace s)"
    if w: "while_loop fuel cfg data_iterator 0 (prepare cfg st) = Some (c, s)" for c s
  proof -
    have "\<forall>e\<in>set (trace s). e \<noteq> WriterClose"
    proof (rule loop_events [OF w prep])
      fix b s c s' evs
      assume b: "body cfg b s = (c, s')" "trace s' = trace s @ evs"
      show "\<forall>e\<in>set evs. e \<noteq> WriterClose"
      proof
        fix e assume "e \<in> set evs"
        with body_new_events [OF b, of e] kinds_not_save_or_close [of e]
        show "e \<noteq> WriterClose" by blast
      qed
    qed
    moreover from while_loop_trace_grows [OF w] created have "WriterCreate d \<in> set (trace s)"
      by auto
    ultimately show ?thesis by blast
  qed
  from assms(1) show ?thesis
  proof (cases rule: train_cases)
    case (caught e s)
    from in_loop [OF caught(1)] caught(4) assms(2) show ?thesis
      by (intro exI [of _ "trace s @ [PrintExn e]"]) simp
  next
    case (propagated e)
    with assms(3) show ?thesis by simp
  next
    case (completed c s)
    from in_loop [OF completed(1)] completed(4) assms(2) show ?thesis
      by (intro exI [of _ "trace s"]) simp
  qed
qed

theorem writer_closed_on_return_witness:
  "train example_cfg fresh_state diverging_iterator 2 = Some (Caught (RuntimeError diverging), diverged_run)
   \<and> logdir example_cfg = Some ''runs''
   \<and> last (trace diverged_run) = WriterClose
   \<and> WriterCreate ''runs'' \<in> set (butlast (trace diverged_run))
   \<and> WriterClose \<notin> set (butlast (trace diverged_run))"
proof -
  have t: "train example_cfg fresh_state diverging_iterator 2
             = Some (Caught (RuntimeError diverging), diverged_run)"
    by (simp add: diverged_run_def example_defs run_defs eval_nat_numeral)
  have l: "logdir example_cfg = Some ''runs''" by (simp add: example_cfg_def)
  from writer_closed_on_return [OF t l] obtain tr where
    "trace diverged_run = tr @ [WriterClose]" "WriterCreate ''runs'' \<in> set tr" "WriterClose \<notin> set tr"
    by auto
  with t l show ?thesis by simp
qed

end
